theory Spec2Isabelle
  imports Main
begin

chapter \<open>The naming and sequencing core of the work camera application\<close>

text \<open>
  A shallow embedding of \<^verbatim>\<open>src/utils/StorageUtils.ts\<close>, \<^verbatim>\<open>src/utils/SettingsStorage.ts\<close>, the
  start-up code of \<^verbatim>\<open>App.tsx\<close> and the sequencing handlers of
  \<^verbatim>\<open>src/components/CameraView.tsx\<close>, followed by the properties proved of them. The
  definitions come first, in the order of the source files; the facts and the numbered claims
  follow.
\<close>

section \<open>JavaScript string and number primitives used by the naming code\<close>

text \<open>
  Strings are character lists. Sequence numbers and sub-sequence numbers are JavaScript
  numbers in the source; every value the sequencing code itself produces is a non-negative
  integer, modelled as a natural number (exact below \<open>2^53\<close>, where the source's doubles
  are exact too).
\<close>

definition digit_char :: "nat \<Rightarrow> char" where
  "digit_char d = ''0123456789'' ! d"

definition is_digit :: "char \<Rightarrow> bool" where
  "is_digit c = (c \<in> set ''0123456789'')"

definition digit_val :: "char \<Rightarrow> nat" where
  "digit_val c = of_char c - 48"

text \<open>\<^verbatim>\<open>n.toString()\<close> for a non-negative integer: its decimal digits.\<close>

fun toString :: "nat \<Rightarrow> string" where
  "toString n = (if n < 10 then [digit_char n] else toString (n div 10) @ [digit_char (n mod 10)])"

declare toString.simps [simp del]

text \<open>\<^verbatim>\<open>s.padStart(n, c)\<close> with a one-character filler.\<close>

definition padStart :: "nat \<Rightarrow> char \<Rightarrow> string \<Rightarrow> string" where
  "padStart n c s = replicate (n - length s) c @ s"

text \<open>The test \<^verbatim>\<open>/^\d+$/.test(s)\<close>: a non-empty run of decimal digits.\<close>

definition all_digits :: "string \<Rightarrow> bool" where
  "all_digits s = (s \<noteq> [] \<and> list_all is_digit s)"

text \<open>The value of a run of decimal digits (leading zeros allowed).\<close>

definition digits_val :: "string \<Rightarrow> nat" where
  "digits_val s = foldl (\<lambda>a c. 10 * a + digit_val c) 0 s"

text \<open>
  A JavaScript number as the naming code meets it: \<open>Whole n\<close> is the integer \<open>n\<close>;
  \<open>NumberOf s\<close> is the value \<^verbatim>\<open>Number(s)\<close> of a string \<open>s\<close> that is not a non-empty run of
  decimal digits (\<^verbatim>\<open>NaN\<close> for most such strings), which this development does not
  interpret further.
\<close>

datatype number = Whole nat | NumberOf string

definition Number :: "string \<Rightarrow> number" where
  "Number s = (if all_digits s then Whole (digits_val s) else NumberOf s)"

text \<open>
  The text a template literal gives for a number. The rendering of an uninterpreted
  \<open>NumberOf s\<close> is a parameter \<open>render\<close> (in the source it is \<^verbatim>\<open>String(Number(s))\<close>).
\<close>

fun numberToString :: "(string \<Rightarrow> string) \<Rightarrow> number \<Rightarrow> string" where
  "numberToString render (Whole n) = toString n"
| "numberToString render (NumberOf s) = render s"

text \<open>\<^verbatim>\<open>s.includes(pat)\<close>: \<open>pat\<close> occurs in \<open>s\<close> as a contiguous substring.\<close>

fun str_includes :: "string \<Rightarrow> string \<Rightarrow> bool" where
  "str_includes pat [] = (pat = [])"
| "str_includes pat (c # cs) = (take (length pat) (c # cs) = pat \<or> str_includes pat cs)"

text \<open>\<^verbatim>\<open>s.endsWith(suffix)\<close>.\<close>

definition endsWith :: "string \<Rightarrow> string \<Rightarrow> bool" where
  "endsWith s suffix = (length suffix \<le> length s \<and> drop (length s - length suffix) s = suffix)"

text \<open>
  \<^verbatim>\<open>s.replace(pat, rep)\<close> with a string pattern: only the first occurrence of \<open>pat\<close>
  is replaced; \<open>s\<close> is returned unchanged when there is none. The replacement is taken
  literally, as it is for the replacements the source passes, none of which has a dollar sign.
\<close>

fun replace :: "string \<Rightarrow> string \<Rightarrow> string \<Rightarrow> string" where
  "replace pat rep [] = (if pat = [] then rep else [])"
| "replace pat rep (c # cs) =
     (if take (length pat) (c # cs) = pat then rep @ drop (length pat) (c # cs)
      else c # replace pat rep cs)"

text \<open>\<^verbatim>\<open>s.split(sep)\<close> for a one-character separator; the result is never empty.\<close>

fun split :: "char \<Rightarrow> string \<Rightarrow> string list" where
  "split sep [] = [[]]"
| "split sep (c # cs) =
     (if c = sep then [] # split sep cs
      else (case split sep cs of [] \<Rightarrow> [[c]] | p # ps \<Rightarrow> (c # p) # ps))"

text \<open>\<^verbatim>\<open>parts.join(sep)\<close> for a one-character separator.\<close>

fun join :: "char \<Rightarrow> string list \<Rightarrow> string" where
  "join sep [] = []"
| "join sep [p] = p"
| "join sep (p # q # ps) = p @ sep # join sep (q # ps)"

text \<open>
  \<^verbatim>\<open>s.replace(/[\\/:*?"<>|]/g, '_')\<close>: every character illegal in a file name becomes
  an underscore.
\<close>

definition illegal_char :: "char \<Rightarrow> bool" where
  "illegal_char c = (c \<in> set [CHR 0x5C, CHR ''/'', CHR '':'', CHR ''*'', CHR ''?'', CHR 0x22,
                               CHR ''<'', CHR ''>'', CHR ''|''])"

definition sanitize :: "string \<Rightarrow> string" where
  "sanitize s = map (\<lambda>c. if illegal_char c then CHR ''_'' else c) s"

section \<open>StorageUtils: the naming codec\<close>

text \<open>
  \<^verbatim>\<open>formatFilename(sequence, subSequence?, textLabel?)\<close>. The test \<^verbatim>\<open>if (textLabel)\<close> is
  JavaScript truthiness: the label is present and not the empty string.
\<close>

definition formatFilename :: "(string \<Rightarrow> string) \<Rightarrow> nat \<Rightarrow> number option \<Rightarrow> string option \<Rightarrow> string" where
  "formatFilename render sequence subSequence textLabel =
     (if textLabel \<noteq> None \<and> textLabel \<noteq> Some [] then
        (let sanitized = sanitize (the textLabel) in
         case subSequence of
           Some sub \<Rightarrow> sanitized @ ''-'' @ numberToString render sub @ ''.jpg''
         | None \<Rightarrow> sanitized @ ''.jpg'')
      else
        (let seqStr = padStart 3 CHR ''0'' (toString sequence) in
         case subSequence of
           Some sub \<Rightarrow> seqStr @ ''-'' @ numberToString render sub @ ''.jpg''
         | None \<Rightarrow> seqStr @ ''.jpg''))"

text \<open>The object \<^verbatim>\<open>parseFilename\<close> returns; an absent property is \<open>None\<close>.\<close>

record capture_index =
  sequence :: "nat option"
  subSequence :: "number option"
  textLabel :: "string option"

definition parseFilename :: "string \<Rightarrow> capture_index" where
  "parseFilename filename =
     (let name = replace ''.mp4'' [] (replace ''.jpg'' [] filename) in
      if str_includes ''-'' name then
        (let parts = split CHR ''-'' name;
             sub = Number (last parts);
             prefix = join CHR ''-'' (butlast parts)
         in if all_digits prefix
            then \<lparr>sequence = Some (digits_val prefix), subSequence = Some sub, textLabel = None\<rparr>
            else \<lparr>sequence = None, subSequence = Some sub, textLabel = Some prefix\<rparr>)
      else if all_digits name
        then \<lparr>sequence = Some (digits_val name), subSequence = None, textLabel = None\<rparr>
        else \<lparr>sequence = None, subSequence = None, textLabel = Some name\<rparr>)"

section \<open>StorageUtils: listing a folder and resuming the sequence\<close>

text \<open>A rejected promise of the file-system or storage library.\<close>

datatype error = StorageIOError | SyntaxError | CameraError

text \<open>A folder as the application passes it around: \<^verbatim>\<open>{ name, path }\<close>.\<close>

record folder =
  name :: string
  path :: string

text \<open>
  An entry returned by \<^verbatim>\<open>RNFS.readDir\<close>: a name and a path, whether it is a regular file,
  and its modification time in milliseconds when the platform reports one.
\<close>

record dir_item = folder +
  isFile :: bool
  mtime :: "nat option"

text \<open>\<^verbatim>\<open>s.toLowerCase()\<close> on the ASCII letters.\<close>

definition lower_char :: "char \<Rightarrow> char" where
  "lower_char c =
     (case map_of (zip ''ABCDEFGHIJKLMNOPQRSTUVWXYZ'' ''abcdefghijklmnopqrstuvwxyz'') c of
        Some l \<Rightarrow> l
      | None \<Rightarrow> c)"

definition toLowerCase :: "string \<Rightarrow> string" where
  "toLowerCase s = map lower_char s"

text \<open>The extension test shared by \<^verbatim>\<open>listPhotos\<close> and \<^verbatim>\<open>listFolders\<close>.\<close>

definition isMedia :: "string \<Rightarrow> bool" where
  "isMedia fname =
     (let n = toLowerCase fname in
      endsWith n ''.jpg'' \<or> endsWith n ''.jpeg'' \<or> endsWith n ''.png'' \<or>
      endsWith n ''.mp4'' \<or> endsWith n ''.mov'')"

text \<open>\<^verbatim>\<open>b.mtime?.getTime() || 0\<close>.\<close>

definition mtime_or_zero :: "dir_item \<Rightarrow> nat" where
  "mtime_or_zero f = (case mtime f of Some t \<Rightarrow> t | None \<Rightarrow> 0)"

text \<open>
  \<^verbatim>\<open>listPhotos(folderPath)\<close>. The argument is what \<^verbatim>\<open>RNFS.readDir(folderPath)\<close> answered: the
  entries, or a rejection, which the \<^verbatim>\<open>catch\<close> turns into the empty list. The entries
  that are media files are sorted, most recently modified first (a stable sort).
\<close>

definition listPhotos :: "error + dir_item list \<Rightarrow> dir_item list" where
  "listPhotos readDir =
     (case readDir of
        Inl e \<Rightarrow> []
      | Inr files \<Rightarrow>
          sort_key (\<lambda>f. - int (mtime_or_zero f))
            (filter (\<lambda>f. isFile f \<and> isMedia (name f)) files))"

text \<open>
  \<^verbatim>\<open>findHighestSequence(folderPath)\<close>: the \<^verbatim>\<open>forEach\<close> loop is a left fold over the listed
  files with \<^verbatim>\<open>maxSeq\<close> as accumulator. Nothing inside the \<^verbatim>\<open>try\<close> block throws once
  \<^verbatim>\<open>listPhotos\<close> has caught the failure of the directory read.
\<close>

definition findHighestSequence :: "error + dir_item list \<Rightarrow> nat" where
  "findHighestSequence readDir =
     foldl (\<lambda>maxSeq file.
              (case sequence (parseFilename (name file)) of
                 Some s \<Rightarrow> if s > maxSeq then s else maxSeq
               | None \<Rightarrow> maxSeq))
           0 (listPhotos readDir)"

section \<open>The file system behind \<^verbatim>\<open>react-native-fs\<close>\<close>

text \<open>
  The library is outside the repository; the model keeps what the application relies on.
  A file system maps a path to a regular file with its content or to a directory.
  \<open>locked\<close> holds the paths on which a read, a directory creation or a move is refused
  (permission denied, I/O error): there the promise rejects. \<^verbatim>\<open>RNFS.exists\<close> always resolves
  to a boolean. \<^verbatim>\<open>RNFS.moveFile\<close> replaces whatever is stored at its destination, which is why
  the application looks for a free name first.
\<close>

datatype node = File string | Directory

record rnfs =
  nodes :: "string \<rightharpoonup> node"
  locked :: "string set"

definition RNFS_exists :: "rnfs \<Rightarrow> string \<Rightarrow> bool" where
  "RNFS_exists fs p = (nodes fs p \<noteq> None)"

definition RNFS_mkdir :: "rnfs \<Rightarrow> string \<Rightarrow> error + rnfs" where
  "RNFS_mkdir fs p =
     (if p \<in> locked fs then Inl StorageIOError
      else Inr (fs\<lparr>nodes := (nodes fs)(p \<mapsto> Directory)\<rparr>))"

definition RNFS_moveFile :: "rnfs \<Rightarrow> string \<Rightarrow> string \<Rightarrow> error + rnfs" where
  "RNFS_moveFile fs src dst =
     (if src \<in> locked fs \<or> dst \<in> locked fs then Inl StorageIOError
      else case nodes fs src of
             None \<Rightarrow> Inl StorageIOError
           | Some n \<Rightarrow> Inr (fs\<lparr>nodes := (nodes fs)(src := None, dst \<mapsto> n)\<rparr>))"

definition RNFS_readFile :: "rnfs \<Rightarrow> string \<Rightarrow> error + string" where
  "RNFS_readFile fs p =
     (if p \<in> locked fs then Inl StorageIOError
      else case nodes fs p of
             Some (File content) \<Rightarrow> Inr content
           | _ \<Rightarrow> Inl StorageIOError)"

section \<open>StorageUtils: saving, archiving and unique names\<close>

text \<open>
  \<^verbatim>\<open>fileExists(folderPath, filename)\<close>. Its \<^verbatim>\<open>catch\<close> answers \<open>False\<close>; with \<^verbatim>\<open>RNFS.exists\<close>
  always resolving, that branch is never taken.
\<close>

definition fileExists :: "rnfs \<Rightarrow> string \<Rightarrow> string \<Rightarrow> bool" where
  "fileExists fs folderPath filename = RNFS_exists fs (folderPath @ ''/'' @ filename)"

text \<open>
  The \<^verbatim>\<open>while\<close> loop of \<^verbatim>\<open>getUniqueFilename\<close>, entered with the current \<open>counter\<close> and
  candidate \<open>filename\<close>. It runs for as long as the candidate exists, so it is a partial
  function: \<open>None\<close> is a loop that never ends.
\<close>

partial_function (option) getUniqueFilename_loop ::
  "rnfs \<Rightarrow> string \<Rightarrow> string \<Rightarrow> string \<Rightarrow> nat \<Rightarrow> string \<Rightarrow> string option" where
  "getUniqueFilename_loop fs folderPath base ext counter filename =
     (if RNFS_exists fs (folderPath @ ''/'' @ filename)
      then getUniqueFilename_loop fs folderPath base ext (counter + 1)
             (base @ ''_'' @ toString (counter + 1) @ ext)
      else Some filename)"

declare getUniqueFilename_loop.simps [code]

text \<open>\<^verbatim>\<open>getUniqueFilename(folderPath, sequence, subSequence?, textLabel?)\<close>.\<close>

definition getUniqueFilename ::
  "(string \<Rightarrow> string) \<Rightarrow> rnfs \<Rightarrow> string \<Rightarrow> nat \<Rightarrow> number option \<Rightarrow> string option \<Rightarrow> string option" where
  "getUniqueFilename render fs folderPath seq subSeq label =
     (let filename = formatFilename render seq subSeq label;
          ext = (if endsWith filename ''.mp4'' then ''.mp4'' else ''.jpg'');
          base = replace ext [] filename
      in getUniqueFilename_loop fs folderPath base ext 1 filename)"

text \<open>
  The \<^verbatim>\<open>while\<close> loop of \<^verbatim>\<open>saveFile\<close>; \<open>finalFilename\<close> stands for \<^verbatim>\<open>destPath\<close> as well,
  which is always \<^verbatim>\<open>folderPath/finalFilename\<close>.
\<close>

partial_function (option) saveFile_loop ::
  "rnfs \<Rightarrow> string \<Rightarrow> string \<Rightarrow> string \<Rightarrow> nat \<Rightarrow> string \<Rightarrow> string option" where
  "saveFile_loop fs folderPath base ext counter finalFilename =
     (if RNFS_exists fs (folderPath @ ''/'' @ finalFilename)
      then saveFile_loop fs folderPath base ext (counter + 1)
             (base @ ''_v'' @ toString (counter + 1) @ ext)
      else Some finalFilename)"

declare saveFile_loop.simps [code]

text \<open>
  \<^verbatim>\<open>saveFile(tempPath, folderPath, filename)\<close>: the path the file was moved to and the new file
  system, or the rejection of the move. \<^verbatim>\<open>filename.slice(0, -ext.length)\<close> drops the last
  four characters.
\<close>

definition saveFile :: "rnfs \<Rightarrow> string \<Rightarrow> string \<Rightarrow> string \<Rightarrow> (error + string \<times> rnfs) option" where
  "saveFile fs tempPath folderPath filename =
     (let ext = (if endsWith filename ''.mp4'' then ''.mp4'' else ''.jpg'');
          base = take (length filename - length ext) filename
      in case saveFile_loop fs folderPath base ext 1 filename of
           None \<Rightarrow> None
         | Some finalFilename \<Rightarrow>
             (let destPath = folderPath @ ''/'' @ finalFilename
              in case RNFS_moveFile fs tempPath destPath of
                   Inl e \<Rightarrow> Some (Inl e)
                 | Inr fs' \<Rightarrow> Some (Inr (destPath, fs'))))"

text \<open>
  \<^verbatim>\<open>archiveExistingFile(folderPath, filename)\<close> at the clock reading \<open>timestamp\<close>
  (\<^verbatim>\<open>new Date().getTime()\<close>). Every rejection is caught and logged, and the function then
  answers \<open>False\<close>; a directory created before the rejection stays.
\<close>

definition archiveExistingFile :: "rnfs \<Rightarrow> string \<Rightarrow> string \<Rightarrow> nat \<Rightarrow> bool \<times> rnfs" where
  "archiveExistingFile fs folderPath filename timestamp =
     (let filePath = folderPath @ ''/'' @ filename;
          archivePath = folderPath @ ''/archive''
      in if RNFS_exists fs filePath then
           (case (if \<not> RNFS_exists fs archivePath then RNFS_mkdir fs archivePath else Inr fs) of
              Inl e \<Rightarrow> (False, fs)
            | Inr fs1 \<Rightarrow>
                (let archiveFileName = replace ''.jpg'' (''_'' @ toString timestamp @ ''.jpg'') filename;
                     destPath = archivePath @ ''/'' @ archiveFileName
                 in case RNFS_moveFile fs1 filePath destPath of
                      Inl e \<Rightarrow> (False, fs1)
                    | Inr fs2 \<Rightarrow> (True, fs2)))
         else (False, fs))"

text \<open>
  \<^verbatim>\<open>formatTimestampFilename(extension)\<close>, with the clock reading \<^verbatim>\<open>getTimestamp()\<close> and the
  four random characters as arguments.
\<close>

definition formatTimestampFilename :: "string \<Rightarrow> string \<Rightarrow> string \<Rightarrow> string" where
  "formatTimestampFilename timestamp shortId extension =
     (let prefix = (if extension = ''.jpg'' then ''IMG'' else ''VID'')
      in prefix @ ''_'' @ timestamp @ ''_'' @ shortId @ extension)"

text \<open>
  \<^verbatim>\<open>getLastFolder()\<close>: the folder stored in the state file, \<open>None\<close> for \<^verbatim>\<open>null\<close>. \<open>JSON_parse\<close>
  is \<^verbatim>\<open>JSON.parse\<close> read at the type of a folder; it may throw, and the JSON text \<^verbatim>\<open>null\<close>
  parses to \<open>None\<close>.
\<close>

definition getLastFolder :: "(string \<Rightarrow> error + folder option) \<Rightarrow> rnfs \<Rightarrow> string \<Rightarrow> folder option" where
  "getLastFolder JSON_parse fs STATE_FILE =
     (if RNFS_exists fs STATE_FILE then
        (case RNFS_readFile fs STATE_FILE of
           Inl e \<Rightarrow> None
         | Inr content \<Rightarrow> (case JSON_parse content of Inl e \<Rightarrow> None | Inr v \<Rightarrow> v))
      else None)"

section \<open>SettingsStorage and the start-up resolution\<close>

datatype settings_mode = Default | Fixed | LastUsed

datatype labeling_mode = Single | NumberedGroup | TextGroup

datatype capture_mode = Photo | Video

datatype flash_mode = FlashOff | FlashOn | FlashAuto | FlashAlways

datatype camera_position = Front | Back

text \<open>The shutter button's offsets \<^verbatim>\<open>{ x, y }\<close> in each orientation.\<close>

record shutter_positions =
  portrait :: "int \<times> int"
  landscape :: "int \<times> int"

text \<open>The interface \<^verbatim>\<open>AppSettings\<close>; an optional property is an option.\<close>

record AppSettings =
  ignoreOrientationLock :: bool
  folderMode :: settings_mode
  fixedFolder :: "folder option"
  shutterPositionMode :: settings_mode
  fixedShutterPositions :: "shutter_positions option"
  labelingModeMode :: settings_mode
  fixedLabelingMode :: "labeling_mode option"
  captureMode :: settings_mode
  fixedCaptureMode :: "capture_mode option"
  flashModeMode :: settings_mode
  fixedFlashMode :: "flash_mode option"
  cameraModeMode :: settings_mode
  fixedCameraPosition :: "camera_position option"

definition getDefaultSettings :: AppSettings where
  "getDefaultSettings =
     \<lparr>ignoreOrientationLock = False,
      folderMode = LastUsed, fixedFolder = None,
      shutterPositionMode = Default, fixedShutterPositions = None,
      labelingModeMode = Default, fixedLabelingMode = None,
      captureMode = Default, fixedCaptureMode = None,
      flashModeMode = Default, fixedFlashMode = None,
      cameraModeMode = Default, fixedCameraPosition = None\<rparr>"

text \<open>
  The key-value store \<^verbatim>\<open>AsyncStorage\<close>: what it stores under each key, and whether it is unavailable, in
  which case every call rejects.
\<close>

record async_storage =
  stored :: "string \<rightharpoonup> string"
  unavailable :: bool

definition getItem :: "async_storage \<Rightarrow> string \<Rightarrow> error + string option" where
  "getItem store key = (if unavailable store then Inl StorageIOError else Inr (stored store key))"

definition setItem :: "async_storage \<Rightarrow> string \<Rightarrow> string \<Rightarrow> error + async_storage" where
  "setItem store key v =
     (if unavailable store then Inl StorageIOError
      else Inr (store\<lparr>stored := (stored store)(key \<mapsto> v)\<rparr>))"

definition LAST_USED_PREFIX :: string where
  "LAST_USED_PREFIX = ''@last_used_''"

text \<open>
  \<^verbatim>\<open>saveLastUsedState(key, value)\<close>; \<open>JSON_stringify\<close> is \<^verbatim>\<open>JSON.stringify\<close> at the type of
  the value. A rejection of the store is caught and logged.
\<close>

definition saveLastUsedState ::
  "('a \<Rightarrow> string) \<Rightarrow> async_storage \<Rightarrow> string \<Rightarrow> 'a \<Rightarrow> async_storage" where
  "saveLastUsedState JSON_stringify store key v =
     (case setItem store (LAST_USED_PREFIX @ key) (JSON_stringify v) of
        Inl e \<Rightarrow> store
      | Inr store' \<Rightarrow> store')"

text \<open>
  \<^verbatim>\<open>getLastUsedState<T>(key)\<close>; \<open>JSON_parse\<close> is \<^verbatim>\<open>JSON.parse\<close> read at type \<open>T\<close>: it may
  throw, and the JSON text \<^verbatim>\<open>null\<close> parses to \<open>None\<close>. The test \<^verbatim>\<open>if (json)\<close> fails for a
  missing item and for the empty string. Every exception is caught and gives \<^verbatim>\<open>null\<close>.
\<close>

definition getLastUsedState ::
  "(string \<Rightarrow> error + 'a option) \<Rightarrow> async_storage \<Rightarrow> string \<Rightarrow> 'a option" where
  "getLastUsedState JSON_parse store key =
     (case getItem store (LAST_USED_PREFIX @ key) of
        Inl e \<Rightarrow> None
      | Inr None \<Rightarrow> None
      | Inr (Some json) \<Rightarrow>
          if json \<noteq> [] then (case JSON_parse json of Inl e \<Rightarrow> None | Inr v \<Rightarrow> v)
          else None)"

text \<open>
  \<^verbatim>\<open>getInitialValue<T>(settings, settingKey, fixedKey, lastUsedKey, defaultValue)\<close>. A key of
  \<^verbatim>\<open>AppSettings\<close> is given as the selector of its field, so that \<^verbatim>\<open>settings[settingKey]\<close> is
  \<open>settingKey settings\<close>. The operator \<^verbatim>\<open>??\<close> takes the default when the value is absent.
\<close>

definition getInitialValue ::
  "(string \<Rightarrow> error + 'a option) \<Rightarrow> async_storage \<Rightarrow> AppSettings \<Rightarrow>
   (AppSettings \<Rightarrow> settings_mode) \<Rightarrow> (AppSettings \<Rightarrow> 'a option) \<Rightarrow> string \<Rightarrow> 'a \<Rightarrow> 'a" where
  "getInitialValue JSON_parse store settings settingKey fixedKey lastUsedKey defaultValue =
     (let mode = settingKey settings in
      case mode of
        Fixed \<Rightarrow>
          (let fixedValue = fixedKey settings in
           case fixedValue of Some v \<Rightarrow> v | None \<Rightarrow> defaultValue)
      | LastUsed \<Rightarrow>
          (let lastUsed = getLastUsedState JSON_parse store lastUsedKey in
           case lastUsed of Some v \<Rightarrow> v | None \<Rightarrow> defaultValue)
      | Default \<Rightarrow> defaultValue)"

text \<open>
  The folder that \<^verbatim>\<open>setup\<close> in \<^verbatim>\<open>App.tsx\<close> hands to \<^verbatim>\<open>setCurrentFolder\<close> at start-up:
  the \<^verbatim>\<open>switch\<close> on \<^verbatim>\<open>settings.folderMode\<close>, then the fall-back to the root folder
  \<^verbatim>\<open>{ name: 'WorkPhotos', path: BASE_DIR }\<close> when no folder was found.
\<close>

definition setup_folder ::
  "(string \<Rightarrow> error + folder option) \<Rightarrow> rnfs \<Rightarrow> string \<Rightarrow> string \<Rightarrow> AppSettings \<Rightarrow> folder" where
  "setup_folder JSON_parse fs BASE_DIR STATE_FILE settings =
     (let found =
            (case folderMode settings of
               Fixed \<Rightarrow>
                 (case fixedFolder settings of
                    Some f \<Rightarrow> if RNFS_exists fs (path f) then Some f else None
                  | None \<Rightarrow> None)
             | LastUsed \<Rightarrow> getLastFolder JSON_parse fs STATE_FILE
             | Default \<Rightarrow> None)
      in case found of
           Some f \<Rightarrow> f
         | None \<Rightarrow> \<lparr>name = ''WorkPhotos'', path = BASE_DIR\<rparr>)"

section \<open>CameraView: the sequencing state and its handlers\<close>

text \<open>
  The \<^verbatim>\<open>useState\<close> cells of \<^verbatim>\<open>CameraView\<close> that the naming and sequencing code reads or
  writes. The cells \<^verbatim>\<open>sequence\<close>, \<^verbatim>\<open>subSequence\<close> and \<^verbatim>\<open>textLabel\<close> carry the suffix \<open>_st\<close>
  here, the plain names being the fields of a parsed file name.
\<close>

record camera_state =
  sequence_st :: nat
  subSequence_st :: nat
  textLabel_st :: string
  labelingMode :: labeling_mode
  retakeTarget :: "capture_index option"
  usedLabels :: "string list"
  lastPhoto :: "string option"
  isEnteringLabel :: bool
  newFolderName :: string
  isEditingIndex :: bool
  editSequence :: string
  editSubSequence :: string
  indexWarning :: "string option"

text \<open>The initial values given to \<^verbatim>\<open>useState\<close>.\<close>

definition initial_state :: camera_state where
  "initial_state =
     \<lparr>sequence_st = 1, subSequence_st = 1, textLabel_st = [], labelingMode = Single,
      retakeTarget = None, usedLabels = [], lastPhoto = None, isEnteringLabel = False,
      newFolderName = [], isEditingIndex = False, editSequence = [], editSubSequence = [],
      indexWarning = None\<rparr>"

text \<open>
  What a capture depends on besides the state and the file system: how a number that is not
  an integer prints, the current folder and the base directory, the camera, and the clock and
  random source read when a name is built. \<open>shot\<close> is \<open>None\<close> when there is no camera
  (\<^verbatim>\<open>camera.current\<close> is null), a rejection of \<^verbatim>\<open>takePhoto\<close>, or the path and content of
  the temporary file the camera wrote.
\<close>

record capture_env =
  number_text :: "string \<Rightarrow> string"
  currentFolder :: folder
  base_dir :: string
  shot :: "(error + string \<times> string) option"
  clock_timestamp :: string
  random_id :: string
  clock_ms :: nat

definition isRoot :: "capture_env \<Rightarrow> bool" where
  "isRoot env = (path (currentFolder env) = base_dir env)"

text \<open>How a capture ended: saved at a path, abandoned in the \<^verbatim>\<open>catch\<close>, or never started.\<close>

datatype capture_outcome = Saved string | Failed error | NoCamera

text \<open>
  \<^verbatim>\<open>takePhoto\<close>. The state is only written after \<^verbatim>\<open>saveFile\<close> has returned; an exception
  before that reaches the \<^verbatim>\<open>catch\<close>, which logs it and leaves the state as it was, while
  the changes already made to the file system stay. The result of \<^verbatim>\<open>archiveExistingFile\<close>
  is not looked at. The flash overlay and the media scanner do not touch the state modelled
  here. \<open>None\<close> is a capture that never returns, because a naming loop does not end.
\<close>

definition takePhoto ::
  "capture_env \<Rightarrow> camera_state \<Rightarrow> rnfs \<Rightarrow> (capture_outcome \<times> camera_state \<times> rnfs) option" where
  "takePhoto env st fs =
     (case shot env of
        None \<Rightarrow> Some (NoCamera, st, fs)
      | Some (Inl e) \<Rightarrow> Some (Failed e, st, fs)
      | Some (Inr (photo_path, content)) \<Rightarrow>
          (let fs1 = fs\<lparr>nodes := (nodes fs)(photo_path \<mapsto> File content)\<rparr>;
               targetSeq = (case retakeTarget st of
                              Some t \<Rightarrow> (case sequence t of Some n \<Rightarrow> n | None \<Rightarrow> sequence_st st)
                            | None \<Rightarrow> sequence_st st);
               targetSub = (case retakeTarget st of
                              Some t \<Rightarrow> subSequence t
                            | None \<Rightarrow> if labelingMode st \<noteq> Single
                                      then Some (Whole (subSequence_st st)) else None);
               targetText = (case retakeTarget st of
                               Some t \<Rightarrow> textLabel t
                             | None \<Rightarrow> if labelingMode st = TextGroup
                                       then Some (textLabel_st st) else None)
           in case (if isRoot env
                    then Some (formatTimestampFilename (clock_timestamp env) (random_id env) ''.jpg'')
                    else getUniqueFilename (number_text env) fs1 (path (currentFolder env))
                           targetSeq targetSub targetText) of
                None \<Rightarrow> None
              | Some filename \<Rightarrow>
                  (let fs2 = (if retakeTarget st \<noteq> None
                              then snd (archiveExistingFile fs1 (path (currentFolder env)) filename
                                          (clock_ms env))
                              else fs1)
                   in case saveFile fs2 photo_path (path (currentFolder env)) filename of
                        None \<Rightarrow> None
                      | Some (Inl e) \<Rightarrow> Some (Failed e, st, fs2)
                      | Some (Inr (savedPath, fs3)) \<Rightarrow>
                          Some (Saved savedPath,
                                (if retakeTarget st \<noteq> None then
                                   st\<lparr>lastPhoto := Some savedPath, retakeTarget := None\<rparr>
                                 else if labelingMode st \<noteq> Single then
                                   st\<lparr>lastPhoto := Some savedPath,
                                      subSequence_st := subSequence_st st + 1,
                                      usedLabels :=
                                        (if labelingMode st = TextGroup \<and>
                                            textLabel_st st \<notin> set (usedLabels st)
                                         then usedLabels st @ [textLabel_st st]
                                         else usedLabels st)\<rparr>
                                 else
                                   st\<lparr>lastPhoto := Some savedPath,
                                      sequence_st := sequence_st st + 1\<rparr>),
                                fs3))))"

text \<open>
  \<^verbatim>\<open>retakeLast\<close>: the retake target is the parse of the last path component of the last
  photo; nothing happens without a last photo.
\<close>

definition retakeLast :: "camera_state \<Rightarrow> camera_state" where
  "retakeLast st =
     (case lastPhoto st of
        None \<Rightarrow> st
      | Some p \<Rightarrow>
          if p \<noteq> [] then st\<lparr>retakeTarget := Some (parseFilename (last (split CHR ''/'' p)))\<rparr>
          else st)"

text \<open>Pressing the \<open>Retaking ...\<close> label: \<^verbatim>\<open>setRetakeTarget(null)\<close>.\<close>

definition cancelRetake :: "camera_state \<Rightarrow> camera_state" where
  "cancelRetake st = st\<lparr>retakeTarget := None\<rparr>"

text \<open>
  The \<^verbatim>\<open>syncSequence\<close> effect that runs when the folder changes; its argument is what
  \<^verbatim>\<open>RNFS.readDir\<close> answered for the folder.
\<close>

definition syncSequence :: "bool \<Rightarrow> error + dir_item list \<Rightarrow> camera_state \<Rightarrow> camera_state" where
  "syncSequence root readDir st =
     (if root then st
      else (let highest = findHighestSequence readDir
            in if highest > 0 then st\<lparr>sequence_st := highest + 1, subSequence_st := 1\<rparr>
               else st\<lparr>sequence_st := 1, subSequence_st := 1\<rparr>))"



text \<open>
  White space as \<^verbatim>\<open>trim\<close> and \<^verbatim>\<open>parseInt\<close> skip it, within ASCII: tab, line feed, vertical
  tab, form feed, carriage return and space.
\<close>

definition is_space :: "char \<Rightarrow> bool" where
  "is_space c = (c \<in> set [CHR 0x09, CHR 0x0A, CHR 0x0B, CHR 0x0C, CHR 0x0D, CHR 0x20])"

definition trim :: "string \<Rightarrow> string" where
  "trim s = rev (dropWhile is_space (rev (dropWhile is_space s)))"

text \<open>
  \<^verbatim>\<open>parseInt(s, 10)\<close>: leading white space, an optional sign, then the longest run of
  decimal digits; \<open>None\<close> is \<^verbatim>\<open>NaN\<close>, returned when that run is empty.
\<close>

definition parseInt :: "string \<Rightarrow> int option" where
  "parseInt s =
     (let s1 = dropWhile is_space s;
          negative = (s1 \<noteq> [] \<and> hd s1 = CHR ''-'');
          s2 = (if s1 \<noteq> [] \<and> (hd s1 = CHR ''-'' \<or> hd s1 = CHR ''+'') then tl s1 else s1);
          ds = takeWhile is_digit s2
      in if ds = [] then None
         else Some (if negative then - int (digits_val ds) else int (digits_val ds)))"

datatype alert = InvalidLabel | InvalidIndex | InvalidSubIndex | DuplicateLabel


text \<open>\<^verbatim>\<open>openIndexEditor\<close>.\<close>

definition openIndexEditor :: "camera_state \<Rightarrow> camera_state" where
  "openIndexEditor st =
     st\<lparr>editSequence := (if labelingMode st = TextGroup then textLabel_st st
                          else toString (sequence_st st)),
        editSubSequence := (if labelingMode st \<noteq> Single then toString (subSequence_st st) else []),
        indexWarning := None,
        isEditingIndex := True\<rparr>"

text \<open>
  The \<^verbatim>\<open>onChangeText\<close> handlers of the two inputs of the index editor: outside the text
  mode every character that is not a digit is dropped; both clear the warning.
\<close>

definition changeEditSequence :: "string \<Rightarrow> camera_state \<Rightarrow> camera_state" where
  "changeEditSequence t st =
     st\<lparr>editSequence := (if labelingMode st = TextGroup then t else filter is_digit t),
        indexWarning := None\<rparr>"

definition changeEditSubSequence :: "string \<Rightarrow> camera_state \<Rightarrow> camera_state" where
  "changeEditSubSequence t st =
     st\<lparr>editSubSequence := filter is_digit t, indexWarning := None\<rparr>"

text \<open>The \<open>Cancel\<close> button of the index editor.\<close>

definition cancelIndexEditor :: "camera_state \<Rightarrow> camera_state" where
  "cancelIndexEditor st = st\<lparr>isEditingIndex := False, indexWarning := None\<rparr>"

text \<open>The text of the overwrite warning.\<close>

definition overwriteWarning :: "string \<Rightarrow> string" where
  "overwriteWarning filename =
     ''File '' @ [CHR 0x22] @ replace ''.jpg'' [] filename @ [CHR 0x22] @
     '' already exists. Press '' @ [CHR 0x22] @ ''Set'' @ [CHR 0x22] @
     '' again to confirm overwrite.''"

text \<open>
  The first half of \<^verbatim>\<open>handleIndexSave\<close>: reading the two inputs of the index editor.
  It yields the alert of the early return taken, or \<^verbatim>\<open>newSeq\<close>, \<^verbatim>\<open>newTextLabel\<close> and
  \<^verbatim>\<open>newSubSeq\<close>.
\<close>

definition readIndexEdit :: "camera_state \<Rightarrow> alert + nat \<times> string \<times> nat option" where
  "readIndexEdit st =
     (let textMode = (labelingMode st = TextGroup);
          newTextLabel = (if textMode then trim (editSequence st) else textLabel_st st)
      in case (if textMode then (if newTextLabel = [] then Inl InvalidLabel
                                 else Inr (sequence_st st))
               else (case parseInt (editSequence st) of
                       None \<Rightarrow> Inl InvalidIndex
                     | Some n \<Rightarrow> if n < 1 then Inl InvalidIndex else Inr (nat n))) of
           Inl a \<Rightarrow> Inl a
         | Inr newSeq \<Rightarrow>
            (case (if labelingMode st \<noteq> Single \<and> trim (editSubSequence st) \<noteq> []
                   then (case parseInt (editSubSequence st) of
                           None \<Rightarrow> Inl InvalidSubIndex
                         | Some n \<Rightarrow> if n < 1 then Inl InvalidSubIndex else Inr (Some (nat n)))
                   else Inr None) of
               Inl a \<Rightarrow> Inl a
             | Inr newSubSeq \<Rightarrow> Inr (newSeq, newTextLabel, newSubSeq)))"

text \<open>The file name that the edited index stands for.\<close>

definition editedFilename ::
  "(string \<Rightarrow> string) \<Rightarrow> camera_state \<Rightarrow> nat \<times> string \<times> nat option \<Rightarrow> string" where
  "editedFilename numtext st edit =
     (case edit of (newSeq, newTextLabel, newSubSeq) \<Rightarrow>
        formatFilename numtext newSeq (map_option Whole newSubSeq)
          (if labelingMode st = TextGroup then Some newTextLabel else None))"

text \<open>
  \<^verbatim>\<open>handleIndexSave\<close>: the \<open>Set\<close> button of the index editor. An early return with an
  alert leaves the state as it is; so does the early return that sets the warning, apart
  from the warning itself. The test \<^verbatim>\<open>!indexWarning\<close> holds for \<^verbatim>\<open>null\<close> and for the empty
  string.
\<close>

definition handleIndexSave ::
  "(string \<Rightarrow> string) \<Rightarrow> rnfs \<Rightarrow> folder \<Rightarrow> camera_state \<Rightarrow> alert option \<times> camera_state" where
  "handleIndexSave numtext fs folder st =
     (case readIndexEdit st of
        Inl a \<Rightarrow> (Some a, st)
      | Inr (newSeq, newTextLabel, newSubSeq) \<Rightarrow>
          (let filename = editedFilename numtext st (newSeq, newTextLabel, newSubSeq);
               taken = fileExists fs (path folder) filename
           in if taken \<and> (indexWarning st = None \<or> indexWarning st = Some [])
              then (None, st\<lparr>indexWarning := Some (overwriteWarning filename)\<rparr>)
              else
                (let st1 = (if labelingMode st = TextGroup
                            then st\<lparr>textLabel_st := newTextLabel,
                                    usedLabels :=
                                      (if newTextLabel \<in> set (usedLabels st)
                                       then usedLabels st
                                       else usedLabels st @ [newTextLabel])\<rparr>
                            else st\<lparr>sequence_st := newSeq\<rparr>);
                     st2 = (if labelingMode st \<noteq> Single
                            then st1\<lparr>subSequence_st :=
                                       (case newSubSeq of Some n \<Rightarrow> n | None \<Rightarrow> 1)\<rparr>
                            else st1)
                 in (None, st2\<lparr>isEditingIndex := False, indexWarning := None\<rparr>))))"

section \<open>Facts about the string primitives\<close>

lemma split_nonempty: "split sep s \<noteq> []"
  by (induction s) (auto split: list.splits)

lemma split_no_sep: "sep \<notin> set s \<Longrightarrow> split sep s = [s]"
  by (induction s) auto

lemma split_append_sep: "sep \<notin> set t \<Longrightarrow> split sep (s @ sep # t) = split sep s @ [t]"
  by (induction s) (auto simp: split_no_sep split_nonempty split: list.splits)

lemma join_split: "join sep (split sep s) = s"
proof (induction s)
  case Nil show ?case by simp
next
  case (Cons c s)
  show ?case
  proof (cases "c = sep")
    case True
    obtain p ps where "split sep s = p # ps" using split_nonempty[of sep s] by (cases "split sep s") auto
    with Cons True show ?thesis by simp
  next
    case False
    obtain p ps where eq: "split sep s = p # ps" using split_nonempty[of sep s] by (cases "split sep s") auto
    with Cons False show ?thesis by (cases ps) auto
  qed
qed

lemma str_includes_char: "str_includes [c] s = (c \<in> set s)"
  by (induction s) auto

lemma replace_absent: "\<not> str_includes pat s \<Longrightarrow> replace pat rep s = s"
  by (induction s) auto

lemma replace_first:
  assumes "\<not> str_includes pat s" "pat \<noteq> []" "hd pat \<notin> set (tl pat)"
  shows "replace pat rep (s @ pat @ t) = s @ rep @ t"
  using assms(1)
proof (induction s)
  case Nil
  obtain c p where cp: "pat = c # p" using assms(2) by (cases pat) auto
  have "take (length pat) (pat @ t) = pat" by simp
  then have "replace pat rep (c # p @ t) = rep @ drop (length pat) (c # p @ t)"
    unfolding cp by (simp del: take_append drop_append)
  then show ?case unfolding cp by simp
next
  case (Cons x xs)
  have ni: "\<not> str_includes pat xs" and nt: "take (length pat) (x # xs) \<noteq> pat"
    using Cons.prems(1) by auto
  have neq: "take (length pat) (x # (xs @ pat @ t)) \<noteq> pat"
  proof
    assume eq: "take (length pat) (x # (xs @ pat @ t)) = pat"
    show False
    proof (cases "length pat \<le> length (x # xs)")
      case True
      have "take (length pat) ((x # xs) @ pat @ t) = take (length pat) (x # xs)"
        using True by (simp only: take_append) simp
      then show ?thesis using eq nt by simp
    next
      case False
      then have lt: "length (x # xs) < length pat" by simp
      have "pat ! length (x # xs) = (take (length pat) ((x # xs) @ pat @ t)) ! length (x # xs)"
        using eq by simp
      also have "\<dots> = ((x # xs) @ pat @ t) ! length (x # xs)"
        using lt by (simp only: nth_take)
      also have "\<dots> = hd pat"
      proof -
        have "pat @ t = hd pat # (tl pat @ t)" using assms(2) by (cases pat) auto
        then have "((x # xs) @ pat @ t) ! length (x # xs)
                     = ((x # xs) @ hd pat # (tl pat @ t)) ! length (x # xs)"
          by (simp only:)
        also have "\<dots> = hd pat" by (rule nth_append_length)
        finally show ?thesis .
      qed
      finally have "pat ! length (x # xs) = hd pat" .
      moreover have "pat ! length (x # xs) = tl pat ! length xs"
        using assms(2) by (cases pat) auto
      moreover have "length xs < length (tl pat)" using lt assms(2) by (cases pat) auto
      ultimately show False using assms(3) nth_mem by metis
    qed
  qed
  have "replace pat rep (x # (xs @ pat @ t)) = x # replace pat rep (xs @ pat @ t)"
    using neq by (simp only: replace.simps if_False)
  then show ?case using Cons.IH[OF ni] by simp
qed

lemma take_foreign:
  assumes "x \<notin> set pat"
  shows "(take (length pat) (u @ x # t) = pat) = (take (length pat) u = pat)"
proof (cases "length pat \<le> length u")
  case True
  then show ?thesis by simp
next
  case False
  then have gt: "length u < length pat" by simp
  then obtain k where k: "length pat - length u = Suc k" by (cases "length pat - length u") auto
  have "take (length pat) (u @ x # t) = u @ x # take k t"
    using gt k by simp
  then have "x \<in> set (take (length pat) (u @ x # t))" by simp
  then have l: "take (length pat) (u @ x # t) \<noteq> pat" using assms by metis
  have "length (take (length pat) u) < length pat" using gt by simp
  then have r: "take (length pat) u \<noteq> pat" by auto
  show ?thesis using l r by simp
qed

lemma str_includes_append_foreign:
  assumes "x \<notin> set pat" "pat \<noteq> []"
  shows "str_includes pat (s @ x # t) = (str_includes pat s \<or> str_includes pat t)"
proof (induction s)
  case Nil
  have "take (length pat) (x # t) \<noteq> pat"
    using take_foreign[OF assms(1), of "[]" t] assms(2) by simp
  then show ?case using assms(2) by simp
next
  case (Cons c s)
  have "(take (length pat) ((c # s) @ x # t) = pat) = (take (length pat) (c # s) = pat)"
    by (rule take_foreign[OF assms(1)])
  then show ?case using Cons.IH by simp
qed

section \<open>Facts about the naming codec\<close>

lemma digit_char_props: "d < 10 \<Longrightarrow> is_digit (digit_char d) \<and> digit_val (digit_char d) = d"
proof -
  assume "d < 10"
  then have "d \<in> {0,1,2,3,4,5,6,7,8,9}" by auto
  then show ?thesis by (auto simp: digit_char_def is_digit_def digit_val_def)
qed

lemma all_digits_toString: "all_digits (toString n)"
  apply (induction n rule: toString.induct)
  apply (subst toString.simps)
  apply (auto simp: all_digits_def digit_char_props)
  done

lemma digits_val_snoc: "digits_val (s @ [c]) = 10 * digits_val s + digit_val c"
  by (simp add: digits_val_def)

lemma digits_val_toString: "digits_val (toString n) = n"
  apply (induction n rule: toString.induct)
  apply (subst toString.simps)
  apply (auto simp: digits_val_snoc digit_char_props)
  apply (simp add: digits_val_def digit_char_props)
  done

lemma str_includes_no_head: "pat \<noteq> [] \<Longrightarrow> hd pat \<notin> set s \<Longrightarrow> \<not> str_includes pat s"
proof (induction s)
  case Nil then show ?case by simp
next
  case (Cons c s)
  have "take (length pat) (c # s) \<noteq> pat"
  proof
    assume "take (length pat) (c # s) = pat"
    then have "hd pat = c" using Cons.prems(1) by (cases pat) auto
    then show False using Cons.prems(2) by simp
  qed
  then show ?case using Cons by simp
qed

lemma digits_val_zeros: "digits_val (replicate k CHR ''0'' @ s) = digits_val s"
proof -
  have "foldl (\<lambda>a c. 10 * a + digit_val c) 0 (replicate k CHR ''0'') = 0"
    by (induction k) (auto simp: digit_val_def)
  then show ?thesis by (simp add: digits_val_def)
qed

lemma is_digit_zero: "is_digit CHR ''0''"
  by (simp add: is_digit_def)

lemma all_digits_padStart: "all_digits s \<Longrightarrow> all_digits (padStart n CHR ''0'' s)"
proof -
  assume a: "all_digits s"
  have "list_all is_digit (replicate k CHR ''0'')" for k
    by (induction k) (simp_all add: is_digit_zero)
  then show ?thesis using a by (simp add: all_digits_def padStart_def)
qed

lemma digits_val_padStart: "digits_val (padStart n CHR ''0'' s) = digits_val s"
  by (simp add: padStart_def digits_val_zeros)

lemma all_digits_set: "all_digits s \<Longrightarrow> c \<in> set s \<Longrightarrow> is_digit c"
  by (auto simp: all_digits_def list_all_iff)

lemma not_digit_chars: "\<not> is_digit CHR ''-''" "\<not> is_digit CHR ''.''" "\<not> is_digit CHR ''_''" "\<not> is_digit CHR ''v''"
  by (simp_all add: is_digit_def)

lemma all_digits_no_dash: "all_digits s \<Longrightarrow> CHR ''-'' \<notin> set s"
  using all_digits_set not_digit_chars(1) by blast

lemma all_digits_no_dot: "all_digits s \<Longrightarrow> CHR ''.'' \<notin> set s"
  using all_digits_set not_digit_chars(2) by blast

lemma strip_extensions:
  assumes "\<not> str_includes ''.jpg'' stem" "\<not> str_includes ''.mp4'' stem"
  shows "replace ''.mp4'' [] (replace ''.jpg'' [] (stem @ ''.jpg'')) = stem"
proof -
  have "replace ''.jpg'' [] (stem @ ''.jpg'' @ []) = stem @ [] @ []"
    by (rule replace_first[OF assms(1)]) simp_all
  then have "replace ''.jpg'' [] (stem @ ''.jpg'') = stem" by simp
  then show ?thesis using replace_absent[OF assms(2)] by simp
qed

lemma no_ext_digits: "all_digits s \<Longrightarrow> \<not> str_includes ''.jpg'' s \<and> \<not> str_includes ''.mp4'' s"
  using all_digits_no_dot[of s] str_includes_no_head[of "''.jpg''" s] str_includes_no_head[of "''.mp4''" s]
  by simp

lemma no_ext_dash_digits:
  assumes "\<not> str_includes pat p" "all_digits t" "pat = ''.jpg'' \<or> pat = ''.mp4''"
  shows "\<not> str_includes pat (p @ ''-'' @ t)"
proof -
  have "CHR ''-'' \<notin> set pat" "pat \<noteq> []" using assms(3) by auto
  then have "str_includes pat (p @ CHR ''-'' # t) = (str_includes pat p \<or> str_includes pat t)"
    by (rule str_includes_append_foreign)
  moreover have "\<not> str_includes pat t" using no_ext_digits[OF assms(2)] assms(3) by auto
  ultimately show ?thesis using assms(1) by simp
qed

lemma split_last_dash:
  assumes "CHR ''-'' \<notin> set t"
  shows "last (split CHR ''-'' (p @ ''-'' @ t)) = t"
    and "join CHR ''-'' (butlast (split CHR ''-'' (p @ ''-'' @ t))) = p"
  using split_append_sep[OF assms, of p] join_split[of "CHR ''-''" p] by simp_all

lemma parse_stem_plain:
  assumes "\<not> str_includes ''.jpg'' stem" "\<not> str_includes ''.mp4'' stem" "CHR ''-'' \<notin> set stem"
  shows "parseFilename (stem @ ''.jpg'') =
           (if all_digits stem
            then \<lparr>sequence = Some (digits_val stem), subSequence = None, textLabel = None\<rparr>
            else \<lparr>sequence = None, subSequence = None, textLabel = Some stem\<rparr>)"
  using strip_extensions[OF assms(1,2)] assms(3)
  by (simp add: parseFilename_def str_includes_char)

lemma parse_stem_dash:
  assumes "\<not> str_includes ''.jpg'' p" "\<not> str_includes ''.mp4'' p" "all_digits t"
  shows "parseFilename (p @ ''-'' @ t @ ''.jpg'') =
           (if all_digits p
            then \<lparr>sequence = Some (digits_val p), subSequence = Some (Whole (digits_val t)), textLabel = None\<rparr>
            else \<lparr>sequence = None, subSequence = Some (Whole (digits_val t)), textLabel = Some p\<rparr>)"
proof -
  let ?stem = "p @ ''-'' @ t"
  have "replace ''.mp4'' [] (replace ''.jpg'' [] (?stem @ ''.jpg'')) = ?stem"
    using no_ext_dash_digits[OF assms(1) assms(3)] no_ext_dash_digits[OF assms(2) assms(3)]
    by (intro strip_extensions) simp_all
  then have name: "replace ''.mp4'' [] (replace ''.jpg'' [] (p @ ''-'' @ t @ ''.jpg'')) = ?stem" by simp
  have inc: "str_includes ''-'' ?stem" by (simp add: str_includes_char)
  have nd: "CHR ''-'' \<notin> set t" using assms(3) by (rule all_digits_no_dash)
  show ?thesis
    unfolding parseFilename_def name Let_def
    using inc split_last_dash[OF nd, of p] assms(3)
    by (simp add: Number_def)
qed

lemma parse_format_numeric:
  "parseFilename (formatFilename render seq (map_option Whole sub) None) =
     \<lparr>sequence = Some seq, subSequence = map_option Whole sub, textLabel = None\<rparr>"
proof -
  let ?s = "padStart 3 CHR ''0'' (toString seq)"
  have d: "all_digits ?s" by (simp add: all_digits_padStart all_digits_toString)
  have v: "digits_val ?s = seq" by (simp add: digits_val_padStart digits_val_toString)
  show ?thesis
  proof (cases sub)
    case None
    then show ?thesis
      using parse_stem_plain[of ?s] no_ext_digits[OF d] all_digits_no_dash[OF d] d v
      by (simp add: formatFilename_def)
  next
    case (Some k)
    then show ?thesis
      using parse_stem_dash[of ?s "toString k"] no_ext_digits[OF d] d v
      by (simp add: formatFilename_def all_digits_toString digits_val_toString)
  qed
qed

lemma sanitize_legal: "list_all (\<lambda>c. \<not> illegal_char c) L \<Longrightarrow> sanitize L = L"
  by (induction L) (auto simp: sanitize_def)

lemma parse_format_label:
  assumes "L \<noteq> []" "\<not> all_digits L" "list_all (\<lambda>c. \<not> illegal_char c) L"
    and "\<not> str_includes ''.jpg'' L" "\<not> str_includes ''.mp4'' L"
    and "sub = None \<longrightarrow> CHR ''-'' \<notin> set L"
  shows "parseFilename (formatFilename render seq (map_option Whole sub) (Some L)) =
     \<lparr>sequence = None, subSequence = map_option Whole sub, textLabel = Some L\<rparr>"
proof (cases sub)
  case None
  then show ?thesis
    using parse_stem_plain[of L] assms
    by (simp add: formatFilename_def sanitize_legal)
next
  case (Some k)
  then show ?thesis
    using parse_stem_dash[of L "toString k"] assms
    by (simp add: formatFilename_def sanitize_legal all_digits_toString digits_val_toString)
qed

section \<open>Facts about the folder scan\<close>

lemma foldl_maxSeq:
  "foldl (\<lambda>maxSeq file. (case sequence (parseFilename (name file)) of
                 Some s \<Rightarrow> if s > maxSeq then s else maxSeq | None \<Rightarrow> maxSeq)) m xs
   = Max (insert m {s. \<exists>f \<in> set xs. sequence (parseFilename (name f)) = Some s})"
proof (induction xs arbitrary: m)
  case Nil show ?case by simp
next
  case (Cons x xs)
  let ?S = "{s. \<exists>f \<in> set xs. sequence (parseFilename (name f)) = Some s}"
  have fin: "finite ?S"
  proof -
    have "?S \<subseteq> (\<lambda>f. the (sequence (parseFilename (name f)))) ` set xs" by force
    then show ?thesis by (rule finite_subset) simp
  qed
  show ?case
  proof (cases "sequence (parseFilename (name x))")
    case None
    then have "{s. \<exists>f \<in> set (x # xs). sequence (parseFilename (name f)) = Some s} = ?S" by auto
    then show ?thesis using None Cons.IH[of m] by simp
  next
    case (Some s)
    then have eq: "{s. \<exists>f \<in> set (x # xs). sequence (parseFilename (name f)) = Some s} = insert s ?S" by auto
    have "Max (insert (if s > m then s else m) ?S) = Max (insert m (insert s ?S))"
    proof -
      have "Max (insert m (insert s ?S)) = max m (Max (insert s ?S))" using fin by simp
      also have "\<dots> = max m (if ?S = {} then s else max s (Max ?S))" using fin by simp
      also have "\<dots> = Max (insert (max m s) ?S)" using fin by (auto simp: max.assoc)
      finally show ?thesis by (simp add: max_def)
    qed
    then show ?thesis using Some Cons.IH[of "if s > m then s else m"] eq by simp
  qed
qed

lemma findHighestSequence_Max:
  "findHighestSequence (Inr items) =
     Max (insert 0 {s. \<exists>f \<in> set items. isFile f \<and> isMedia (name f) \<and>
                        sequence (parseFilename (name f)) = Some s})"
proof -
  have "{s. \<exists>f \<in> set (listPhotos (Inr items)). sequence (parseFilename (name f)) = Some s}
        = {s. \<exists>f \<in> set items. isFile f \<and> isMedia (name f) \<and>
                        sequence (parseFilename (name f)) = Some s}"
    by (auto simp: listPhotos_def)
  then show ?thesis by (simp add: findHighestSequence_def foldl_maxSeq)
qed

lemma findHighestSequence_error: "findHighestSequence (Inl e) = 0"
  by (simp add: findHighestSequence_def listPhotos_def)

lemma parse_examples:
  "parseFilename ''001.jpg'' = \<lparr>sequence = Some 1, subSequence = None, textLabel = None\<rparr>"
  "parseFilename ''002-1.jpg'' = \<lparr>sequence = Some 2, subSequence = Some (Whole 1), textLabel = None\<rparr>"
  "parseFilename ''Beam-3.jpg'' = \<lparr>sequence = None, subSequence = Some (Whole 3), textLabel = Some ''Beam''\<rparr>"
  by (simp_all add: parseFilename_def Number_def all_digits_def is_digit_def digits_val_def digit_val_def)

lemma media_examples: "isMedia ''001.jpg''" "isMedia ''002-1.jpg''" "isMedia ''Beam-3.jpg''"
  by (simp_all add: isMedia_def toLowerCase_def lower_char_def endsWith_def)

section \<open>Facts about unique names and saving\<close>

lemma toString_inj: "toString a = toString b \<Longrightarrow> a = b"
  by (metis digits_val_toString)

lemma free_names_bound:
  assumes "finite (dom (nodes fs))"
  shows "\<exists>N. \<forall>k\<ge>N. \<not> RNFS_exists fs (pre @ toString k @ post)"
proof -
  have "inj (\<lambda>k. pre @ toString k @ post)"
    by (rule injI) (auto dest: toString_inj)
  then have "finite ((\<lambda>k. pre @ toString k @ post) -` dom (nodes fs))"
    using assms by (simp add: finite_vimageI)
  then obtain N where N: "\<forall>k \<in> (\<lambda>k. pre @ toString k @ post) -` dom (nodes fs). k < N"
    using finite_nat_set_iff_bounded by blast
  have "\<forall>k\<ge>N. \<not> RNFS_exists fs (pre @ toString k @ post)"
  proof (intro allI impI)
    fix k assume le: "N \<le> k"
    have "k \<notin> (\<lambda>k. pre @ toString k @ post) -` dom (nodes fs)"
    proof
      assume "k \<in> (\<lambda>k. pre @ toString k @ post) -` dom (nodes fs)"
      then have "k < N" using N by blast
      then show False using le by simp
    qed
    then have "pre @ toString k @ post \<notin> dom (nodes fs)" by simp
    then show "\<not> RNFS_exists fs (pre @ toString k @ post)"
      unfolding RNFS_exists_def by blast
  qed
  then show ?thesis by blast
qed





text \<open>Whenever the loop returns, the name it returns is free.\<close>

lemma getUniqueFilename_loop_result:
  assumes "getUniqueFilename_loop fs folderPath base ext c filename = Some f"
  shows "\<not> RNFS_exists fs (folderPath @ ''/'' @ f)
         \<and> (f = filename \<or> (\<exists>k>c. f = base @ ''_'' @ toString k @ ext))"
proof (rule getUniqueFilename_loop.raw_induct
        [where P = "\<lambda>fs folderPath base ext c filename f.
                      \<not> RNFS_exists fs (folderPath @ ''/'' @ f)
                      \<and> (f = filename \<or> (\<exists>k>c. f = base @ ''_'' @ toString k @ ext))",
         OF _ assms])
  fix loop :: "rnfs \<Rightarrow> string \<Rightarrow> string \<Rightarrow> string \<Rightarrow> nat \<Rightarrow> string \<Rightarrow> string option"
  fix fs folderPath base ext c filename f
  assume ih: "\<And>fs folderPath base ext c filename f.
                loop fs folderPath base ext c filename = Some f \<Longrightarrow>
                \<not> RNFS_exists fs (folderPath @ ''/'' @ f)
                \<and> (f = filename \<or> (\<exists>k>c. f = base @ ''_'' @ toString k @ ext))"
    and step: "(if RNFS_exists fs (folderPath @ ''/'' @ filename)
                then loop fs folderPath base ext (c + 1) (base @ ''_'' @ toString (c + 1) @ ext)
                else Some filename) = Some f"
  show "\<not> RNFS_exists fs (folderPath @ ''/'' @ f)
         \<and> (f = filename \<or> (\<exists>k>c. f = base @ ''_'' @ toString k @ ext))"
  proof (cases "RNFS_exists fs (folderPath @ ''/'' @ filename)")
    case False
    then have "f = filename" using step by simp
    then show ?thesis using False by simp
  next
    case True
    then have "loop fs folderPath base ext (c + 1) (base @ ''_'' @ toString (c + 1) @ ext) = Some f"
      using step by simp
    then have r: "\<not> RNFS_exists fs (folderPath @ ''/'' @ f)
         \<and> (f = base @ ''_'' @ toString (c + 1) @ ext \<or> (\<exists>k>c + 1. f = base @ ''_'' @ toString k @ ext))"
      by (rule ih)
    then consider "f = base @ ''_'' @ toString (c + 1) @ ext"
      | k where "k > c + 1" "f = base @ ''_'' @ toString k @ ext" by blast
    then have "\<exists>k>c. f = base @ ''_'' @ toString k @ ext"
    proof cases
      case 1
      have "c + 1 > c" by simp
      then show ?thesis using 1 by blast
    next
      case 2
      have "k > c" using 2(1) by simp
      then show ?thesis using 2(2) by blast
    qed
    then show ?thesis using r by blast
  qed
qed

lemma saveFile_loop_free:
  "\<not> RNFS_exists fs (folderPath @ ''/'' @ filename) \<Longrightarrow>
   saveFile_loop fs folderPath base ext counter filename = Some filename"
  by (subst saveFile_loop.simps) simp

lemma saveFile_loop_taken:
  "RNFS_exists fs (folderPath @ ''/'' @ filename) \<Longrightarrow>
   saveFile_loop fs folderPath base ext counter filename =
   saveFile_loop fs folderPath base ext (counter + 1)
     (base @ ''_v'' @ toString (counter + 1) @ ext)"
  by (subst saveFile_loop.simps) simp

lemma saveFile_loop_candidates:
  assumes "\<forall>k\<ge>N. \<not> RNFS_exists fs (folderPath @ ''/'' @ base @ ''_v'' @ toString k @ ext)"
  shows "\<exists>k\<ge>c. saveFile_loop fs folderPath base ext c (base @ ''_v'' @ toString c @ ext)
                  = Some (base @ ''_v'' @ toString k @ ext)
               \<and> \<not> RNFS_exists fs (folderPath @ ''/'' @ base @ ''_v'' @ toString k @ ext)"
proof (induction "N - c" arbitrary: c)
  case 0
  then have "\<not> RNFS_exists fs (folderPath @ ''/'' @ base @ ''_v'' @ toString c @ ext)"
    using assms by simp
  then show ?case using saveFile_loop_free[of fs folderPath "base @ ''_v'' @ toString c @ ext"]
    by auto
next
  case (Suc d)
  show ?case
  proof (cases "RNFS_exists fs (folderPath @ ''/'' @ base @ ''_v'' @ toString c @ ext)")
    case False
    then show ?thesis using saveFile_loop_free[of fs folderPath "base @ ''_v'' @ toString c @ ext"]
      by auto
  next
    case True
    have "d = N - (c + 1)" using Suc.hyps(2) by simp
    from Suc.hyps(1)[OF this] obtain k where k: "k \<ge> c + 1"
      "saveFile_loop fs folderPath base ext (c + 1) (base @ ''_v'' @ toString (c + 1) @ ext)
                  = Some (base @ ''_v'' @ toString k @ ext)"
      "\<not> RNFS_exists fs (folderPath @ ''/'' @ base @ ''_v'' @ toString k @ ext)"
      by blast
    have "saveFile_loop fs folderPath base ext c (base @ ''_v'' @ toString c @ ext)
          = Some (base @ ''_v'' @ toString k @ ext)"
      using saveFile_loop_taken[of fs folderPath "base @ ''_v'' @ toString c @ ext" base ext c] True k(2)
      by simp
    then show ?thesis using k(1,3) by (intro exI[of _ k]) simp
  qed
qed

lemma saveFile_loop_total:
  assumes "finite (dom (nodes fs))"
  shows "\<exists>f. saveFile_loop fs folderPath base ext c filename = Some f
             \<and> \<not> RNFS_exists fs (folderPath @ ''/'' @ f)
             \<and> (f = filename \<or> (\<exists>k>c. f = base @ ''_v'' @ toString k @ ext))"
proof (cases "RNFS_exists fs (folderPath @ ''/'' @ filename)")
  case False
  then show ?thesis using saveFile_loop_free[OF False] by auto
next
  case True
  obtain N where N: "\<forall>k\<ge>N. \<not> RNFS_exists fs ((folderPath @ ''/'' @ base @ ''_v'') @ toString k @ ext)"
    using free_names_bound[OF assms] by blast
  then have "\<forall>k\<ge>N. \<not> RNFS_exists fs (folderPath @ ''/'' @ base @ ''_v'' @ toString k @ ext)" by simp
  from saveFile_loop_candidates[OF this, of "c + 1"]
  obtain k where k: "k \<ge> c + 1"
      "saveFile_loop fs folderPath base ext (c + 1) (base @ ''_v'' @ toString (c + 1) @ ext)
                  = Some (base @ ''_v'' @ toString k @ ext)"
      "\<not> RNFS_exists fs (folderPath @ ''/'' @ base @ ''_v'' @ toString k @ ext)"
    by blast
  have "saveFile_loop fs folderPath base ext c filename = Some (base @ ''_v'' @ toString k @ ext)"
    using saveFile_loop_taken[OF True, of base ext c] k(2) by simp
  moreover have "k > c" using k(1) by simp
  ultimately show ?thesis using k(3) by auto
qed

text \<open>Whenever the loop of \<open>saveFile\<close> returns, the name it returns is free.\<close>

lemma saveFile_loop_result:
  assumes "saveFile_loop fs folderPath base ext c filename = Some f"
  shows "\<not> RNFS_exists fs (folderPath @ ''/'' @ f)
         \<and> (f = filename \<or> (\<exists>k>c. f = base @ ''_v'' @ toString k @ ext))"
proof (rule saveFile_loop.raw_induct
        [where P = "\<lambda>fs folderPath base ext c filename f.
                      \<not> RNFS_exists fs (folderPath @ ''/'' @ f)
                      \<and> (f = filename \<or> (\<exists>k>c. f = base @ ''_v'' @ toString k @ ext))",
         OF _ assms])
  fix loop :: "rnfs \<Rightarrow> string \<Rightarrow> string \<Rightarrow> string \<Rightarrow> nat \<Rightarrow> string \<Rightarrow> string option"
  fix fs folderPath base ext c filename f
  assume ih: "\<And>fs folderPath base ext c filename f.
                loop fs folderPath base ext c filename = Some f \<Longrightarrow>
                \<not> RNFS_exists fs (folderPath @ ''/'' @ f)
                \<and> (f = filename \<or> (\<exists>k>c. f = base @ ''_v'' @ toString k @ ext))"
    and step: "(if RNFS_exists fs (folderPath @ ''/'' @ filename)
                then loop fs folderPath base ext (c + 1) (base @ ''_v'' @ toString (c + 1) @ ext)
                else Some filename) = Some f"
  show "\<not> RNFS_exists fs (folderPath @ ''/'' @ f)
         \<and> (f = filename \<or> (\<exists>k>c. f = base @ ''_v'' @ toString k @ ext))"
  proof (cases "RNFS_exists fs (folderPath @ ''/'' @ filename)")
    case False
    then have "f = filename" using step by simp
    then show ?thesis using False by simp
  next
    case True
    then have "loop fs folderPath base ext (c + 1) (base @ ''_v'' @ toString (c + 1) @ ext) = Some f"
      using step by simp
    then have r: "\<not> RNFS_exists fs (folderPath @ ''/'' @ f)
         \<and> (f = base @ ''_v'' @ toString (c + 1) @ ext \<or> (\<exists>k>c + 1. f = base @ ''_v'' @ toString k @ ext))"
      by (rule ih)
    then consider "f = base @ ''_v'' @ toString (c + 1) @ ext"
      | k where "k > c + 1" "f = base @ ''_v'' @ toString k @ ext" by blast
    then have "\<exists>k>c. f = base @ ''_v'' @ toString k @ ext"
    proof cases
      case 1
      have "c + 1 > c" by simp
      then show ?thesis using 1 by blast
    next
      case 2
      have "k > c" using 2(1) by simp
      then show ?thesis using 2(2) by blast
    qed
    then show ?thesis using r by blast
  qed
qed

section \<open>Facts about a capture\<close>






text \<open>Unfolding sets for evaluating a capture on a concrete folder.\<close>

lemmas eval_names = formatFilename_def toString.simps digit_char_def padStart_def numeral_3_eq_3
  endsWith_def getUniqueFilename_def getUniqueFilename_loop.simps RNFS_exists_def

lemmas eval_capture = takePhoto_def isRoot_def Let_def eval_names archiveExistingFile_def
  saveFile_def saveFile_loop.simps RNFS_moveFile_def RNFS_mkdir_def

section \<open>Facts about collision-suffixed names\<close>

lemma no_dot_no_ext:
  "CHR ''.'' \<notin> set s \<Longrightarrow> \<not> str_includes ''.jpg'' s \<and> \<not> str_includes ''.mp4'' s"
  using str_includes_no_head[of "''.jpg''" s] str_includes_no_head[of "''.mp4''" s] by simp



lemma endsWith_append: "endsWith (s @ suffix) suffix"
  by (simp add: endsWith_def)

lemma endsWith_same_length:
  "length a = length b \<Longrightarrow> endsWith (s @ a) b = (a = b)"
  by (simp add: endsWith_def)

text \<open>The extension and the base that the collision loops take from a name ending in \<open>.jpg\<close>.\<close>

lemma jpg_name_parts:
  assumes "\<not> str_includes ''.jpg'' stem"
  shows "(if endsWith (stem @ ''.jpg'') ''.mp4'' then ''.mp4'' else ''.jpg'') = ''.jpg''"
    and "replace ''.jpg'' [] (stem @ ''.jpg'') = stem"
    and "take (length (stem @ ''.jpg'') - length ''.jpg'') (stem @ ''.jpg'') = stem"
proof -
  show "(if endsWith (stem @ ''.jpg'') ''.mp4'' then ''.mp4'' else ''.jpg'') = ''.jpg''"
    using endsWith_same_length[of "''.jpg''" "''.mp4''" stem] by simp
  have "replace ''.jpg'' [] (stem @ ''.jpg'' @ []) = stem @ [] @ []"
    by (rule replace_first[OF assms]) simp_all
  then show "replace ''.jpg'' [] (stem @ ''.jpg'') = stem" by simp
  show "take (length (stem @ ''.jpg'') - length ''.jpg'') (stem @ ''.jpg'') = stem" by simp
qed

lemma getUniqueFilename_jpg_shape:
  assumes "formatFilename numtext seq subSeq label = stem @ ''.jpg''"
    and "\<not> str_includes ''.jpg'' stem"
    and "getUniqueFilename numtext fs folderPath seq subSeq label = Some f"
  shows "f = stem @ ''.jpg'' \<or> (\<exists>k>1. f = stem @ ''_'' @ toString k @ ''.jpg'')"
proof -
  have "getUniqueFilename_loop fs folderPath stem ''.jpg'' 1 (stem @ ''.jpg'') = Some f"
    using assms(3) unfolding getUniqueFilename_def Let_def assms(1) jpg_name_parts[OF assms(2)] .
  from getUniqueFilename_loop_result[OF this] show ?thesis by blast
qed

lemma formatFilename_numeric_stem:
  "formatFilename numtext seq None None = padStart 3 CHR ''0'' (toString seq) @ ''.jpg''"
  "formatFilename numtext seq (Some (Whole k)) None =
     (padStart 3 CHR ''0'' (toString seq) @ ''-'' @ toString k) @ ''.jpg''"
  "formatFilename numtext seq (Some (Whole k)) (Some []) =
     (padStart 3 CHR ''0'' (toString seq) @ ''-'' @ toString k) @ ''.jpg''"
  by (simp_all add: formatFilename_def)

lemma padded_sequence:
  "all_digits (padStart 3 CHR ''0'' (toString seq))"
  "digits_val (padStart 3 CHR ''0'' (toString seq)) = seq"
  by (simp_all add: all_digits_padStart all_digits_toString digits_val_padStart digits_val_toString)

text \<open>A single-mode name with a collision suffix parses as a text label.\<close>

lemma parse_suffixed_plain:
  assumes "all_digits d" "all_digits k" "sfx = ''_'' \<or> sfx = ''_v''"
  shows "parseFilename (d @ sfx @ k @ ''.jpg'') =
           \<lparr>sequence = None, subSequence = None, textLabel = Some (d @ sfx @ k)\<rparr>"
proof -
  let ?stem = "d @ sfx @ k"
  have dot: "CHR ''.'' \<notin> set ?stem"
    using all_digits_no_dot[OF assms(1)] all_digits_no_dot[OF assms(2)] assms(3) by auto
  have dash: "CHR ''-'' \<notin> set ?stem"
    using all_digits_no_dash[OF assms(1)] all_digits_no_dash[OF assms(2)] assms(3) by auto
  have "CHR ''_'' \<in> set ?stem" using assms(3) by auto
  then have nd: "\<not> all_digits ?stem" using all_digits_set not_digit_chars(3) by blast
  have "parseFilename (?stem @ ''.jpg'') =
           (if all_digits ?stem
            then \<lparr>sequence = Some (digits_val ?stem), subSequence = None, textLabel = None\<rparr>
            else \<lparr>sequence = None, subSequence = None, textLabel = Some ?stem\<rparr>)"
    using no_dot_no_ext[OF dot] dash by (intro parse_stem_plain) simp_all
  then show ?thesis using nd by simp
qed


lemma saveFile_jpg_shape:
  assumes "\<not> str_includes ''.jpg'' stem"
    and "saveFile fs tempPath folderPath (stem @ ''.jpg'') = Some (Inr (dest, fs'))"
  shows "dest = folderPath @ ''/'' @ stem @ ''.jpg''
         \<or> (\<exists>k>1. dest = folderPath @ ''/'' @ stem @ ''_v'' @ toString k @ ''.jpg'')"
proof -
  obtain f where f: "saveFile_loop fs folderPath stem ''.jpg'' 1 (stem @ ''.jpg'') = Some f"
    and d: "dest = folderPath @ ''/'' @ f"
    using assms(2) unfolding saveFile_def Let_def jpg_name_parts[OF assms(1)]
    by (auto split: option.splits sum.splits)
  from saveFile_loop_result[OF f] show ?thesis using d by auto
qed

lemma findHighestSequence_ignores:
  assumes "\<forall>f \<in> set extra. sequence (parseFilename (name f)) = None"
  shows "findHighestSequence (Inr (files @ extra)) = findHighestSequence (Inr files)"
proof -
  have "{s. \<exists>f \<in> set (files @ extra). isFile f \<and> isMedia (name f) \<and>
                        sequence (parseFilename (name f)) = Some s}
        = {s. \<exists>f \<in> set files. isFile f \<and> isMedia (name f) \<and>
                        sequence (parseFilename (name f)) = Some s}"
    using assms by auto
  then show ?thesis unfolding findHighestSequence_Max by simp
qed






section \<open>Claims about the naming codec\<close>

text \<open>
  C2. For every sequence number \<open>seq\<close> in \<open>[1, 999]\<close> and every sub-sequence that is absent or
  in \<open>1..99\<close>, parsing the name that \<open>formatFilename\<close> gives for them (no text label)
  returns exactly that sequence and that sub-sequence, and no text label.
\<close>

theorem parseFilename_formatFilename_numeric:
  assumes "1 \<le> seq" and "seq \<le> 999"
    and "sub = None \<or> (\<exists>k. sub = Some k \<and> 1 \<le> k \<and> k \<le> 99)"
  shows "parseFilename (formatFilename render seq (map_option Whole sub) None) =
           \<lparr>sequence = Some seq, subSequence = map_option Whole sub, textLabel = None\<rparr>"
  by (rule parse_format_numeric)

theorem parseFilename_formatFilename_numeric_witness:
  "parseFilename (formatFilename id 7 (Some (Whole 12)) None) =
     \<lparr>sequence = Some 7, subSequence = Some (Whole 12), textLabel = None\<rparr>
   \<and> formatFilename id 7 (Some (Whole 12)) None = ''007-12.jpg''
   \<and> parseFilename (formatFilename id 999 None None) =
     \<lparr>sequence = Some 999, subSequence = None, textLabel = None\<rparr>"
proof -
  have a: "parseFilename (formatFilename id 7 (map_option Whole (Some 12)) None) =
     \<lparr>sequence = Some 7, subSequence = map_option Whole (Some 12), textLabel = None\<rparr>"
    by (rule parseFilename_formatFilename_numeric) simp_all
  have c: "parseFilename (formatFilename id 999 (map_option Whole None) None) =
     \<lparr>sequence = Some 999, subSequence = map_option Whole None, textLabel = None\<rparr>"
    by (rule parseFilename_formatFilename_numeric) simp_all
  have b: "formatFilename id 7 (Some (Whole 12)) None = ''007-12.jpg''"
    by (simp add: formatFilename_def toString.simps digit_char_def padStart_def numeral_3_eq_3)
  from a c have "parseFilename (formatFilename id 7 (Some (Whole 12)) None) =
     \<lparr>sequence = Some 7, subSequence = Some (Whole 12), textLabel = None\<rparr>"
     and "parseFilename (formatFilename id 999 None None) =
     \<lparr>sequence = Some 999, subSequence = None, textLabel = None\<rparr>"
    by (simp_all only: option.map)
  with b show ?thesis by blast
qed

text \<open>
  C3, as the claim states it, fails: a sanitized, non-numeric label that contains a hyphen
  and is formatted without a sub-sequence is split at its last hyphen; a label that contains
  the text \<open>.jpg\<close> loses that first occurrence instead of the extension; the empty label is
  formatted as a sequence number.
\<close>

theorem parseFilename_formatFilename_label_counterexample:
  "\<not> all_digits ''a-b'' \<and> sanitize ''a-b'' = ''a-b''
   \<and> parseFilename (formatFilename id 1 None (Some ''a-b'')) =
       \<lparr>sequence = None, subSequence = Some (NumberOf ''b''), textLabel = Some ''a''\<rparr>
   \<and> parseFilename (formatFilename id 1 None (Some ''a-b'')) \<noteq>
       \<lparr>sequence = None, subSequence = None, textLabel = Some ''a-b''\<rparr>
   \<and> \<not> all_digits ''a.jpgb'' \<and> sanitize ''a.jpgb'' = ''a.jpgb''
   \<and> parseFilename (formatFilename id 1 None (Some ''a.jpgb'')) \<noteq>
       \<lparr>sequence = None, subSequence = None, textLabel = Some ''a.jpgb''\<rparr>
   \<and> \<not> all_digits '''' \<and> sanitize '''' = ''''
   \<and> parseFilename (formatFilename id 1 (Some (Whole 2)) (Some '''')) \<noteq>
       \<lparr>sequence = None, subSequence = Some (Whole 2), textLabel = Some ''''\<rparr>"
  by (simp add: formatFilename_def parseFilename_def sanitize_def illegal_char_def Number_def
      all_digits_def is_digit_def toString.simps digit_char_def padStart_def digits_val_def
      digit_val_def numeral_3_eq_3)

text \<open>
  C3, amended. For every label \<open>L\<close> that is non-empty, non-numeric, already sanitized and
  contains neither \<open>.jpg\<close> nor \<open>.mp4\<close>, and every sub-sequence that is absent or a
  positive integer, where \<open>L\<close> has no hyphen when the sub-sequence is absent, parsing the
  name that \<open>formatFilename\<close> gives returns exactly that label and that sub-sequence, and no
  sequence.
\<close>

theorem parseFilename_formatFilename_label:
  assumes "L \<noteq> []" and "\<not> all_digits L" and "list_all (\<lambda>c. \<not> illegal_char c) L"
    and "\<not> str_includes ''.jpg'' L" and "\<not> str_includes ''.mp4'' L"
    and "sub = None \<longrightarrow> CHR ''-'' \<notin> set L"
  shows "parseFilename (formatFilename render seq (map_option Whole sub) (Some L)) =
           \<lparr>sequence = None, subSequence = map_option Whole sub, textLabel = Some L\<rparr>"
  using assms by (rule parse_format_label)

theorem parseFilename_formatFilename_label_witness:
  "formatFilename id 1 (Some (Whole 5)) (Some ''Beam-A'') = ''Beam-A-5.jpg''
   \<and> parseFilename (formatFilename id 1 (Some (Whole 5)) (Some ''Beam-A'')) =
       \<lparr>sequence = None, subSequence = Some (Whole 5), textLabel = Some ''Beam-A''\<rparr>
   \<and> parseFilename (formatFilename id 1 None (Some ''Wall'')) =
       \<lparr>sequence = None, subSequence = None, textLabel = Some ''Wall''\<rparr>"
  using parseFilename_formatFilename_label [of "''Beam-A''" "Some 5" id 1]
        parseFilename_formatFilename_label [of "''Wall''" None id 1]
  by (simp add: formatFilename_def sanitize_def illegal_char_def all_digits_def is_digit_def
      toString.simps digit_char_def)

section \<open>Claims about the folder scan\<close>

text \<open>
  C4. \<open>findHighestSequence\<close> returns the largest sequence number among the parses of the
  folder's media file names, where a file whose parse has no sequence (a text label only)
  contributes nothing; it returns 0 for an empty folder and for a folder whose media files
  are all text-labelled; over \<open>001.jpg\<close>, \<open>002-1.jpg\<close>, \<open>Beam-3.jpg\<close> it returns 2.
\<close>

theorem findHighestSequence_maximum:
  "findHighestSequence (Inr items) =
     Max (insert 0 {s. \<exists>f \<in> set items. isFile f \<and> isMedia (name f) \<and>
                        sequence (parseFilename (name f)) = Some s})
   \<and> findHighestSequence (Inr []) = 0
   \<and> ((\<forall>f \<in> set items. isFile f \<and> isMedia (name f) \<longrightarrow>
          sequence (parseFilename (name f)) = None)
        \<longrightarrow> findHighestSequence (Inr items) = 0)
   \<and> findHighestSequence
        (Inr [\<lparr>name = ''001.jpg'', path = p1, isFile = True, mtime = t1\<rparr>,
              \<lparr>name = ''002-1.jpg'', path = p2, isFile = True, mtime = t2\<rparr>,
              \<lparr>name = ''Beam-3.jpg'', path = p3, isFile = True, mtime = t3\<rparr>]) = 2"
proof -
  have general: "findHighestSequence (Inr items) =
     Max (insert 0 {s. \<exists>f \<in> set items. isFile f \<and> isMedia (name f) \<and>
                        sequence (parseFilename (name f)) = Some s})"
    by (rule findHighestSequence_Max)
  have empty: "findHighestSequence (Inr []) = 0"
    by (simp add: findHighestSequence_Max)
  have labels: "findHighestSequence (Inr items) = 0"
    if "\<forall>f \<in> set items. isFile f \<and> isMedia (name f) \<longrightarrow> sequence (parseFilename (name f)) = None"
  proof -
    have e: "{s. \<exists>f \<in> set items. isFile f \<and> isMedia (name f) \<and>
                        sequence (parseFilename (name f)) = Some s} = {}"
      using that by auto
    show ?thesis unfolding findHighestSequence_Max e by simp
  qed
  let ?ex = "[\<lparr>name = ''001.jpg'', path = p1, isFile = True, mtime = t1\<rparr>,
              \<lparr>name = ''002-1.jpg'', path = p2, isFile = True, mtime = t2\<rparr>,
              \<lparr>name = ''Beam-3.jpg'', path = p3, isFile = True, mtime = t3\<rparr>]"
  have "{s. \<exists>f \<in> set ?ex. isFile f \<and> isMedia (name f) \<and>
                        sequence (parseFilename (name f)) = Some s} = {1, 2}"
    by (auto simp: parse_examples media_examples)
  then have example: "findHighestSequence (Inr ?ex) = 2"
    unfolding findHighestSequence_Max by simp
  show ?thesis using general empty labels example by blast
qed

theorem findHighestSequence_maximum_witness:
  "findHighestSequence
        (Inr [\<lparr>name = ''001.jpg'', path = ''/s/001.jpg'', isFile = True, mtime = Some 30\<rparr>,
              \<lparr>name = ''002-1.jpg'', path = ''/s/002-1.jpg'', isFile = True, mtime = Some 20\<rparr>,
              \<lparr>name = ''Beam-3.jpg'', path = ''/s/Beam-3.jpg'', isFile = True, mtime = None\<rparr>]) = 2
   \<and> findHighestSequence
        (Inr [\<lparr>name = ''Beam-3.jpg'', path = ''/s/Beam-3.jpg'', isFile = True, mtime = None\<rparr>]) = 0"
proof -
  let ?b = "\<lparr>name = ''Beam-3.jpg'', path = ''/s/Beam-3.jpg'', isFile = True, mtime = None\<rparr>"
  have "\<forall>f \<in> set [?b]. isFile f \<and> isMedia (name f) \<longrightarrow> sequence (parseFilename (name f)) = None"
    by (simp add: parse_examples)
  then show ?thesis
    using findHighestSequence_maximum [of "[?b]" "''/s/001.jpg''" "Some 30" "''/s/002-1.jpg''" "Some 20"
            "''/s/Beam-3.jpg''" None]
    by blast
qed

section \<open>Claims about the settings\<close>

text \<open>
  C6. When the folder mode is \<open>fixed\<close> and the persisted fixed folder's path no longer
  exists, the start-up resolution yields the root folder (named \<open>WorkPhotos\<close>, at the base
  directory): it neither fails nor returns the dead path.
\<close>

theorem setup_folder_fixed_missing:
  assumes "folderMode settings = Fixed" and "fixedFolder settings = Some f"
    and "\<not> RNFS_exists fs (path f)"
  shows "setup_folder JSON_parse fs BASE_DIR STATE_FILE settings = \<lparr>name = ''WorkPhotos'', path = BASE_DIR\<rparr>"
  using assms by (simp add: setup_folder_def)

theorem setup_folder_fixed_missing_witness:
  "setup_folder (\<lambda>s. Inl SyntaxError)
     \<lparr>nodes = [''/sdcard/DCIM/WorkPhotos'' \<mapsto> Directory], locked = {}\<rparr>
     ''/sdcard/DCIM/WorkPhotos'' ''/data/app_state.json''
     (getDefaultSettings\<lparr>folderMode := Fixed,
        fixedFolder := Some \<lparr>name = ''Site_20240101_090000'',
                             path = ''/sdcard/DCIM/WorkPhotos/Site_20240101_090000''\<rparr>\<rparr>)
   = \<lparr>name = ''WorkPhotos'', path = ''/sdcard/DCIM/WorkPhotos''\<rparr>"
  using setup_folder_fixed_missing
          [of "getDefaultSettings\<lparr>folderMode := Fixed,
                 fixedFolder := Some \<lparr>name = ''Site_20240101_090000'',
                             path = ''/sdcard/DCIM/WorkPhotos/Site_20240101_090000''\<rparr>\<rparr>"
              "\<lparr>name = ''Site_20240101_090000'',
                             path = ''/sdcard/DCIM/WorkPhotos/Site_20240101_090000''\<rparr>"
              "\<lparr>nodes = [''/sdcard/DCIM/WorkPhotos'' \<mapsto> Directory], locked = {}\<rparr>"
              "\<lambda>s. Inl SyntaxError" "''/sdcard/DCIM/WorkPhotos''" "''/data/app_state.json''"]
  by (simp add: getDefaultSettings_def RNFS_exists_def)

text \<open>
  C7. \<open>getInitialValue\<close> resolves a setting by its mode: \<open>fixed\<close> gives the persisted fixed
  value, or the default when there is none; \<open>lastUsed\<close> gives the default when nothing was
  recorded under the key, and the persisted last-used value when one was (read back from the
  store, and in particular after \<open>saveLastUsedState\<close> recorded it); \<open>default\<close> gives the
  default. The statement holds for any pair of field selectors, hence for each of the six
  settings.
\<close>

theorem getInitialValue_resolution:
  "(settingKey settings = Fixed \<longrightarrow>
      getInitialValue JSON_parse store settings settingKey fixedKey lastUsedKey defaultValue =
        (case fixedKey settings of Some v \<Rightarrow> v | None \<Rightarrow> defaultValue))
   \<and> (settingKey settings = LastUsed \<longrightarrow>
      getItem store (LAST_USED_PREFIX @ lastUsedKey) = Inr None \<longrightarrow>
      getInitialValue JSON_parse store settings settingKey fixedKey lastUsedKey defaultValue = defaultValue)
   \<and> (settingKey settings = LastUsed \<longrightarrow>
      getItem store (LAST_USED_PREFIX @ lastUsedKey) = Inr (Some json) \<longrightarrow> json \<noteq> [] \<longrightarrow>
      JSON_parse json = Inr (Some v) \<longrightarrow>
      getInitialValue JSON_parse store settings settingKey fixedKey lastUsedKey defaultValue = v)
   \<and> (settingKey settings = LastUsed \<longrightarrow> \<not> unavailable store \<longrightarrow>
      JSON_stringify v \<noteq> [] \<longrightarrow> JSON_parse (JSON_stringify v) = Inr (Some v) \<longrightarrow>
      getInitialValue JSON_parse (saveLastUsedState JSON_stringify store lastUsedKey v)
        settings settingKey fixedKey lastUsedKey defaultValue = v)
   \<and> (settingKey settings = Default \<longrightarrow>
      getInitialValue JSON_parse store settings settingKey fixedKey lastUsedKey defaultValue = defaultValue)"
  by (simp add: getInitialValue_def getLastUsedState_def saveLastUsedState_def getItem_def setItem_def)

theorem getInitialValue_resolution_witness:
  "getInitialValue (\<lambda>s. if s = ''2'' then Inr (Some TextGroup) else Inl SyntaxError)
     (saveLastUsedState (\<lambda>m. ''2'') \<lparr>stored = Map.empty, unavailable = False\<rparr>
        ''labelingMode'' TextGroup)
     (getDefaultSettings\<lparr>labelingModeMode := LastUsed\<rparr>)
     labelingModeMode fixedLabelingMode ''labelingMode'' Single = TextGroup
   \<and> getInitialValue (\<lambda>s. if s = ''2'' then Inr (Some TextGroup) else Inl SyntaxError)
     \<lparr>stored = Map.empty, unavailable = False\<rparr>
     (getDefaultSettings\<lparr>labelingModeMode := LastUsed\<rparr>)
     labelingModeMode fixedLabelingMode ''labelingMode'' Single = Single
   \<and> getInitialValue (\<lambda>s. if s = ''2'' then Inr (Some TextGroup) else Inl SyntaxError)
     \<lparr>stored = Map.empty, unavailable = False\<rparr>
     (getDefaultSettings\<lparr>labelingModeMode := Fixed, fixedLabelingMode := Some NumberedGroup\<rparr>)
     labelingModeMode fixedLabelingMode ''labelingMode'' Single = NumberedGroup"
proof -
  let ?parse = "\<lambda>s. if s = ''2'' then Inr (Some TextGroup) else Inl SyntaxError"
  let ?store = "\<lparr>stored = Map.empty, unavailable = False\<rparr>"
  have a: "getInitialValue ?parse (saveLastUsedState (\<lambda>m. ''2'') ?store ''labelingMode'' TextGroup)
     (getDefaultSettings\<lparr>labelingModeMode := LastUsed\<rparr>)
     labelingModeMode fixedLabelingMode ''labelingMode'' Single = TextGroup"
    using getInitialValue_resolution
      [where settings = "getDefaultSettings\<lparr>labelingModeMode := LastUsed\<rparr>"
         and settingKey = labelingModeMode and fixedKey = fixedLabelingMode
         and lastUsedKey = "''labelingMode''" and defaultValue = Single
         and JSON_parse = ?parse and JSON_stringify = "\<lambda>m. ''2''" and v = TextGroup
         and store = ?store]
    by (simp add: getDefaultSettings_def)
  have b: "getInitialValue ?parse ?store (getDefaultSettings\<lparr>labelingModeMode := LastUsed\<rparr>)
     labelingModeMode fixedLabelingMode ''labelingMode'' Single = Single"
    using getInitialValue_resolution
      [where settings = "getDefaultSettings\<lparr>labelingModeMode := LastUsed\<rparr>"
         and settingKey = labelingModeMode and fixedKey = fixedLabelingMode
         and lastUsedKey = "''labelingMode''" and defaultValue = Single
         and JSON_parse = ?parse and store = ?store]
    by (simp add: getDefaultSettings_def getItem_def)
  have c: "getInitialValue ?parse ?store
     (getDefaultSettings\<lparr>labelingModeMode := Fixed, fixedLabelingMode := Some NumberedGroup\<rparr>)
     labelingModeMode fixedLabelingMode ''labelingMode'' Single = NumberedGroup"
    using getInitialValue_resolution
      [where settings = "getDefaultSettings\<lparr>labelingModeMode := Fixed, fixedLabelingMode := Some NumberedGroup\<rparr>"
         and settingKey = labelingModeMode and fixedKey = fixedLabelingMode
         and lastUsedKey = "''labelingMode''" and defaultValue = Single
         and JSON_parse = ?parse and store = ?store]
    by (simp add: getDefaultSettings_def)
  show ?thesis using a b c by blast
qed

section \<open>Claims about collision-suffixed names\<close>

text \<open>
  C10, as the claim states it, fails for a grouped capture: when \<open>003-1.jpg\<close> exists,
  \<open>getUniqueFilename\<close> gives \<open>003-1_2.jpg\<close>, whose stem has a hyphen; it parses with sequence 3,
  and a folder holding only that file resumes at sequence 4.
\<close>

theorem collision_suffix_grouped_counterexample:
  "getUniqueFilename id \<lparr>nodes = [''/s/003-1.jpg'' \<mapsto> File ''a''], locked = {}\<rparr> ''/s'' 3
       (Some (Whole 1)) None = Some ''003-1_2.jpg''
   \<and> sequence (parseFilename ''003-1_2.jpg'') = Some 3
   \<and> textLabel (parseFilename ''003-1_2.jpg'') = None
   \<and> findHighestSequence
        (Inr [\<lparr>name = ''003-1_2.jpg'', path = ''/s/003-1_2.jpg'', isFile = True, mtime = None\<rparr>]) = 3
   \<and> sequence_st (syncSequence False
        (Inr [\<lparr>name = ''003-1_2.jpg'', path = ''/s/003-1_2.jpg'', isFile = True, mtime = None\<rparr>])
        initial_state) = 4"
proof -
  have run: "getUniqueFilename id \<lparr>nodes = [''/s/003-1.jpg'' \<mapsto> File ''a''], locked = {}\<rparr> ''/s'' 3
       (Some (Whole 1)) None = Some ''003-1_2.jpg''"
    by (simp add: getUniqueFilename_def getUniqueFilename_loop.simps RNFS_exists_def
        formatFilename_def toString.simps digit_char_def padStart_def numeral_3_eq_3 endsWith_def)
  have parse: "parseFilename ''003-1_2.jpg'' =
      \<lparr>sequence = Some 3, subSequence = Some (NumberOf ''1_2''), textLabel = None\<rparr>"
    by (simp add: parseFilename_def Number_def all_digits_def is_digit_def digits_val_def digit_val_def)
  have media: "isMedia ''003-1_2.jpg''"
    by (simp add: isMedia_def toLowerCase_def lower_char_def endsWith_def)
  have high: "findHighestSequence
        (Inr [\<lparr>name = ''003-1_2.jpg'', path = ''/s/003-1_2.jpg'', isFile = True, mtime = None\<rparr>]) = 3"
    by (simp add: findHighestSequence_def listPhotos_def parse media)
  show ?thesis using run parse high by (simp add: syncSequence_def)
qed

text \<open>
  C10, amended. For a capture without sub-sequence and without text label (a name \<open>NNN.jpg\<close>),
  the collision-suffixed names that \<open>getUniqueFilename\<close> (\<open>NNN_K.jpg\<close>) and \<open>saveFile\<close>
  (\<open>NNN_vK.jpg\<close>) produce are parsed as text labels, with no sequence; \<open>findHighestSequence\<close>
  ignores files so named, and they do not change the sequence number resumed when the folder
  is entered again.
\<close>

theorem collision_suffix_single_is_label:
  "(getUniqueFilename numtext fs folderPath seq None None = Some f \<longrightarrow>
      f \<noteq> formatFilename numtext seq None None \<longrightarrow>
      sequence (parseFilename f) = None \<and> textLabel (parseFilename f) \<noteq> None)
   \<and> (saveFile fs tempPath folderPath (formatFilename numtext seq None None) = Some (Inr (dest, fs')) \<longrightarrow>
      dest \<noteq> folderPath @ ''/'' @ formatFilename numtext seq None None \<longrightarrow>
      (\<exists>g. dest = folderPath @ ''/'' @ g \<and>
           sequence (parseFilename g) = None \<and> textLabel (parseFilename g) \<noteq> None))
   \<and> ((\<forall>e \<in> set extra. \<exists>n k. name e = padStart 3 CHR ''0'' (toString n) @ ''_'' @ toString k @ ''.jpg''
                               \<or> name e = padStart 3 CHR ''0'' (toString n) @ ''_v'' @ toString k @ ''.jpg'') \<longrightarrow>
      findHighestSequence (Inr (files @ extra)) = findHighestSequence (Inr files)
      \<and> syncSequence False (Inr (files @ extra)) st = syncSequence False (Inr files) st)"
proof -
  let ?d = "padStart 3 CHR ''0'' (toString seq)"
  have F: "formatFilename numtext seq None None = ?d @ ''.jpg''"
    by (rule formatFilename_numeric_stem(1))
  have ne: "\<not> str_includes ''.jpg'' ?d" using no_ext_digits[OF padded_sequence(1)] by simp
  have lab: "sequence (parseFilename (padStart 3 CHR ''0'' (toString n) @ sfx @ toString k @ ''.jpg'')) = None
             \<and> textLabel (parseFilename (padStart 3 CHR ''0'' (toString n) @ sfx @ toString k @ ''.jpg'')) \<noteq> None"
    if "sfx = ''_'' \<or> sfx = ''_v''" for n k sfx
    using parse_suffixed_plain[OF padded_sequence(1) all_digits_toString that, of n k] by simp
  have a: "sequence (parseFilename f) = None \<and> textLabel (parseFilename f) \<noteq> None"
    if u: "getUniqueFilename numtext fs folderPath seq None None = Some f"
      and n: "f \<noteq> formatFilename numtext seq None None"
  proof -
    from getUniqueFilename_jpg_shape[OF F ne u] n F
    obtain k where "f = ?d @ ''_'' @ toString k @ ''.jpg''" by auto
    then show ?thesis using lab[of "''_''" seq k] by simp
  qed
  have b: "\<exists>g. dest = folderPath @ ''/'' @ g \<and>
           sequence (parseFilename g) = None \<and> textLabel (parseFilename g) \<noteq> None"
    if s: "saveFile fs tempPath folderPath (formatFilename numtext seq None None) = Some (Inr (dest, fs'))"
      and n: "dest \<noteq> folderPath @ ''/'' @ formatFilename numtext seq None None"
  proof -
    from saveFile_jpg_shape[OF ne s[unfolded F]] n F
    obtain k where "dest = folderPath @ ''/'' @ ?d @ ''_v'' @ toString k @ ''.jpg''" by auto
    then show ?thesis using lab[of "''_v''" seq k] by (intro exI[of _ "?d @ ''_v'' @ toString k @ ''.jpg''"]) simp
  qed
  have c: "findHighestSequence (Inr (files @ extra)) = findHighestSequence (Inr files)
      \<and> syncSequence False (Inr (files @ extra)) st = syncSequence False (Inr files) st"
    if e: "\<forall>e \<in> set extra. \<exists>n k. name e = padStart 3 CHR ''0'' (toString n) @ ''_'' @ toString k @ ''.jpg''
                               \<or> name e = padStart 3 CHR ''0'' (toString n) @ ''_v'' @ toString k @ ''.jpg''"
  proof -
    have "\<forall>x \<in> set extra. sequence (parseFilename (name x)) = None"
    proof
      fix x assume "x \<in> set extra"
      then obtain n k where "name x = padStart 3 CHR ''0'' (toString n) @ ''_'' @ toString k @ ''.jpg''
                               \<or> name x = padStart 3 CHR ''0'' (toString n) @ ''_v'' @ toString k @ ''.jpg''"
        using e by blast
      then show "sequence (parseFilename (name x)) = None"
        using lab[of "''_''" n k] lab[of "''_v''" n k] by auto
    qed
    then have "findHighestSequence (Inr (files @ extra)) = findHighestSequence (Inr files)"
      by (rule findHighestSequence_ignores)
    then show ?thesis by (simp add: syncSequence_def)
  qed
  show ?thesis using a b c by blast
qed

theorem collision_suffix_single_is_label_witness:
  "getUniqueFilename id \<lparr>nodes = [''/s/003.jpg'' \<mapsto> File ''a''], locked = {}\<rparr> ''/s'' 3 None None
     = Some ''003_2.jpg''
   \<and> sequence (parseFilename ''003_2.jpg'') = None
   \<and> textLabel (parseFilename ''003_2.jpg'') \<noteq> None
   \<and> findHighestSequence
        (Inr ([\<lparr>name = ''001.jpg'', path = ''/s/001.jpg'', isFile = True, mtime = Some 10\<rparr>] @
              [\<lparr>name = ''003_2.jpg'', path = ''/s/003_2.jpg'', isFile = True, mtime = Some 20\<rparr>]))
     = findHighestSequence
        (Inr [\<lparr>name = ''001.jpg'', path = ''/s/001.jpg'', isFile = True, mtime = Some 10\<rparr>])"
proof -
  let ?fs = "\<lparr>nodes = [''/s/003.jpg'' \<mapsto> File ''a''], locked = {}\<rparr>"
  let ?extra = "[\<lparr>name = ''003_2.jpg'', path = ''/s/003_2.jpg'', isFile = True, mtime = Some 20\<rparr>]"
  let ?files = "[\<lparr>name = ''001.jpg'', path = ''/s/001.jpg'', isFile = True, mtime = Some 10\<rparr>]"
  have run: "getUniqueFilename id ?fs ''/s'' 3 None None = Some ''003_2.jpg''"
    by (simp add: getUniqueFilename_def getUniqueFilename_loop.simps RNFS_exists_def
        formatFilename_def toString.simps digit_char_def padStart_def numeral_3_eq_3 endsWith_def)
  have other: "''003_2.jpg'' \<noteq> formatFilename id 3 None None"
    by (simp add: formatFilename_def toString.simps digit_char_def padStart_def numeral_3_eq_3)
  have shape: "''003_2.jpg'' = padStart 3 CHR ''0'' (toString 3) @ ''_'' @ toString 2 @ ''.jpg''"
    by (simp add: toString.simps digit_char_def padStart_def numeral_3_eq_3)
  have extra: "\<forall>e \<in> set ?extra.
      \<exists>n k. name e = padStart 3 CHR ''0'' (toString n) @ ''_'' @ toString k @ ''.jpg''
          \<or> name e = padStart 3 CHR ''0'' (toString n) @ ''_v'' @ toString k @ ''.jpg''"
    using shape by auto
  show ?thesis
    using collision_suffix_single_is_label
            [where numtext = id and fs = ?fs and folderPath = "''/s''" and seq = 3
               and f = "''003_2.jpg''" and extra = ?extra and files = ?files]
          run other extra
    by blast
qed

section \<open>Claims about a capture\<close>

text \<open>
  C9. A completed retake leaves the sequencing state as it was: when \<open>takePhoto\<close> saves a
  capture while a retake target is set, the new state is the old one with the retake target
  cleared (and the last photo updated), so \<open>sequence\<close>, \<open>subSequence\<close>, the text label, the
  labeling mode and the used labels are unchanged. Entering a retake and cancelling it do not
  touch the counters either.
\<close>

theorem takePhoto_retake_keeps_sequence:
  assumes "retakeTarget st \<noteq> None"
    and "takePhoto env st fs = Some (Saved p, st', fs')"
  shows "st' = st\<lparr>lastPhoto := Some p, retakeTarget := None\<rparr>
         \<and> sequence_st st' = sequence_st st \<and> subSequence_st st' = subSequence_st st
         \<and> textLabel_st st' = textLabel_st st \<and> labelingMode st' = labelingMode st
         \<and> usedLabels st' = usedLabels st \<and> retakeTarget st' = None
         \<and> sequence_st (retakeLast st) = sequence_st st
         \<and> subSequence_st (retakeLast st) = subSequence_st st
         \<and> sequence_st (cancelRetake st) = sequence_st st
         \<and> subSequence_st (cancelRetake st) = subSequence_st st
         \<and> retakeTarget (cancelRetake st) = None"
proof -
  have "st' = st\<lparr>lastPhoto := Some p, retakeTarget := None\<rparr>"
    using assms
    by (auto simp: takePhoto_def Let_def split: option.splits sum.splits prod.splits if_splits)
  moreover have "sequence_st (retakeLast st) = sequence_st st"
    "subSequence_st (retakeLast st) = subSequence_st st"
    by (simp_all add: retakeLast_def split: option.splits)
  ultimately show ?thesis by (simp add: cancelRetake_def)
qed

theorem takePhoto_retake_keeps_sequence_witness:
  "map_option fst
     (takePhoto
        \<lparr>number_text = id, currentFolder = \<lparr>name = ''s'', path = ''/s''\<rparr>, base_dir = ''/base'',
         shot = Some (Inr (''/tmp/p.jpg'', ''new'')), clock_timestamp = ''20240101_090000'',
         random_id = ''AB12'', clock_ms = 1700\<rparr>
        (retakeLast (initial_state\<lparr>sequence_st := 6, lastPhoto := Some ''/s/005.jpg''\<rparr>))
        \<lparr>nodes = [''/s/005.jpg'' \<mapsto> File ''old''], locked = {}\<rparr>)
     = Some (Saved ''/s/005_2.jpg'')
   \<and> sequence_st (fst (snd (the
     (takePhoto
        \<lparr>number_text = id, currentFolder = \<lparr>name = ''s'', path = ''/s''\<rparr>, base_dir = ''/base'',
         shot = Some (Inr (''/tmp/p.jpg'', ''new'')), clock_timestamp = ''20240101_090000'',
         random_id = ''AB12'', clock_ms = 1700\<rparr>
        (retakeLast (initial_state\<lparr>sequence_st := 6, lastPhoto := Some ''/s/005.jpg''\<rparr>))
        \<lparr>nodes = [''/s/005.jpg'' \<mapsto> File ''old''], locked = {}\<rparr>)))) = 6
   \<and> retakeTarget (fst (snd (the
     (takePhoto
        \<lparr>number_text = id, currentFolder = \<lparr>name = ''s'', path = ''/s''\<rparr>, base_dir = ''/base'',
         shot = Some (Inr (''/tmp/p.jpg'', ''new'')), clock_timestamp = ''20240101_090000'',
         random_id = ''AB12'', clock_ms = 1700\<rparr>
        (retakeLast (initial_state\<lparr>sequence_st := 6, lastPhoto := Some ''/s/005.jpg''\<rparr>))
        \<lparr>nodes = [''/s/005.jpg'' \<mapsto> File ''old''], locked = {}\<rparr>)))) = None"
proof -
  let ?env = "\<lparr>number_text = id, currentFolder = \<lparr>name = ''s'', path = ''/s''\<rparr>, base_dir = ''/base'',
         shot = Some (Inr (''/tmp/p.jpg'', ''new'')), clock_timestamp = ''20240101_090000'',
         random_id = ''AB12'', clock_ms = 1700\<rparr>"
  let ?st = "retakeLast (initial_state\<lparr>sequence_st := 6, lastPhoto := Some ''/s/005.jpg''\<rparr>)"
  let ?fs = "\<lparr>nodes = [''/s/005.jpg'' \<mapsto> File ''old''], locked = {}\<rparr>"
  have target: "retakeTarget ?st \<noteq> None" and seq: "sequence_st ?st = 6"
    by (simp_all add: retakeLast_def initial_state_def)
  have "\<exists>st' fs'. takePhoto ?env ?st ?fs = Some (Saved ''/s/005_2.jpg'', st', fs')"
    by (simp add: eval_capture retakeLast_def initial_state_def parseFilename_def
        all_digits_def is_digit_def digits_val_def digit_val_def)
  then obtain st' fs' where run: "takePhoto ?env ?st ?fs = Some (Saved ''/s/005_2.jpg'', st', fs')"
    by blast
  from takePhoto_retake_keeps_sequence [OF target run]
  have "sequence_st st' = sequence_st ?st" and "retakeTarget st' = None" by blast+
  then show ?thesis using run seq by simp
qed







section \<open>Claims about the manual index edit\<close>

text \<open>
  C8. For a manual index edit whose resulting file name already exists in the current folder:
  the first submission only sets the warning, so that \<open>sequence\<close>, \<open>subSequence\<close> and the text
  label (indeed all the rest of the state) stay as they were and the editor stays open;
  submitting again with the same input commits the edit and closes the editor. The edit is
  committed only on such a resubmission: a submission that closes the editor onto an existing
  name was made with the warning pending, and every change of either input, like opening the
  editor, clears the warning.
\<close>

theorem handleIndexSave_two_step:
  assumes "readIndexEdit st = Inr (newSeq, newTextLabel, newSubSeq)"
    and "fileExists fs (path folder) (editedFilename numtext st (newSeq, newTextLabel, newSubSeq))"
    and "indexWarning st = None"
  shows "handleIndexSave numtext fs folder st =
           (None, st\<lparr>indexWarning :=
                        Some (overwriteWarning
                                (editedFilename numtext st (newSeq, newTextLabel, newSubSeq)))\<rparr>)
         \<and> sequence_st (snd (handleIndexSave numtext fs folder st)) = sequence_st st
         \<and> subSequence_st (snd (handleIndexSave numtext fs folder st)) = subSequence_st st
         \<and> textLabel_st (snd (handleIndexSave numtext fs folder st)) = textLabel_st st
         \<and> isEditingIndex (snd (handleIndexSave numtext fs folder st)) = isEditingIndex st
         \<and> fst (handleIndexSave numtext fs' folder (snd (handleIndexSave numtext fs folder st))) = None
         \<and> sequence_st (snd (handleIndexSave numtext fs' folder
                                (snd (handleIndexSave numtext fs folder st))))
             = (if labelingMode st = TextGroup then sequence_st st else newSeq)
         \<and> textLabel_st (snd (handleIndexSave numtext fs' folder
                                (snd (handleIndexSave numtext fs folder st))))
             = (if labelingMode st = TextGroup then newTextLabel else textLabel_st st)
         \<and> subSequence_st (snd (handleIndexSave numtext fs' folder
                                (snd (handleIndexSave numtext fs folder st))))
             = (if labelingMode st \<noteq> Single
                then (case newSubSeq of Some n \<Rightarrow> n | None \<Rightarrow> 1) else subSequence_st st)
         \<and> isEditingIndex (snd (handleIndexSave numtext fs' folder
                                (snd (handleIndexSave numtext fs folder st)))) = False
         \<and> indexWarning (snd (handleIndexSave numtext fs' folder
                                (snd (handleIndexSave numtext fs folder st)))) = None
         \<and> indexWarning (changeEditSequence t (snd (handleIndexSave numtext fs folder st))) = None
         \<and> indexWarning (changeEditSubSequence t (snd (handleIndexSave numtext fs folder st))) = None
         \<and> indexWarning (openIndexEditor (snd (handleIndexSave numtext fs folder st))) = None
         \<and> (\<forall>s e. readIndexEdit s = Inr e \<longrightarrow>
                  fileExists fs (path folder) (editedFilename numtext s e) \<longrightarrow>
                  isEditingIndex s \<longrightarrow>
                  \<not> isEditingIndex (snd (handleIndexSave numtext fs folder s)) \<longrightarrow>
                  indexWarning s \<noteq> None)"
proof -
  let ?f = "editedFilename numtext st (newSeq, newTextLabel, newSubSeq)"
  let ?st1 = "st\<lparr>indexWarning := Some (overwriteWarning ?f)\<rparr>"
  have first: "handleIndexSave numtext fs folder st = (None, ?st1)"
    using assms by (simp add: handleIndexSave_def Let_def)
  have "readIndexEdit ?st1 = readIndexEdit st"
    by (simp add: readIndexEdit_def Let_def cong: sum.case_cong option.case_cong if_cong)
  then have read1: "readIndexEdit ?st1 = Inr (newSeq, newTextLabel, newSubSeq)"
    using assms(1) by simp
  have name1: "editedFilename numtext ?st1 (newSeq, newTextLabel, newSubSeq) = ?f"
    by (simp add: editedFilename_def)
  have pending: "overwriteWarning ?f \<noteq> []" by (simp add: overwriteWarning_def)
  have second: "handleIndexSave numtext fs' folder ?st1 =
      (None,
       (let s1 = (if labelingMode st = TextGroup
                  then ?st1\<lparr>textLabel_st := newTextLabel,
                          usedLabels := (if newTextLabel \<in> set (usedLabels st) then usedLabels st
                                         else usedLabels st @ [newTextLabel])\<rparr>
                  else ?st1\<lparr>sequence_st := newSeq\<rparr>);
            s2 = (if labelingMode st \<noteq> Single
                  then s1\<lparr>subSequence_st := (case newSubSeq of Some n \<Rightarrow> n | None \<Rightarrow> 1)\<rparr>
                  else s1)
        in s2\<lparr>isEditingIndex := False, indexWarning := None\<rparr>))"
    using pending by (simp add: handleIndexSave_def read1 name1 Let_def)
  have only: "\<forall>s e. readIndexEdit s = Inr e \<longrightarrow>
                  fileExists fs (path folder) (editedFilename numtext s e) \<longrightarrow>
                  isEditingIndex s \<longrightarrow>
                  \<not> isEditingIndex (snd (handleIndexSave numtext fs folder s)) \<longrightarrow>
                  indexWarning s \<noteq> None"
    by (auto simp: handleIndexSave_def Let_def split: prod.splits)
  have rest: "sequence_st (snd (None :: alert option, ?st1)) = sequence_st st
         \<and> subSequence_st (snd (None :: alert option, ?st1)) = subSequence_st st
         \<and> textLabel_st (snd (None :: alert option, ?st1)) = textLabel_st st
         \<and> isEditingIndex (snd (None :: alert option, ?st1)) = isEditingIndex st
         \<and> fst (handleIndexSave numtext fs' folder ?st1) = None
         \<and> sequence_st (snd (handleIndexSave numtext fs' folder ?st1))
             = (if labelingMode st = TextGroup then sequence_st st else newSeq)
         \<and> textLabel_st (snd (handleIndexSave numtext fs' folder ?st1))
             = (if labelingMode st = TextGroup then newTextLabel else textLabel_st st)
         \<and> subSequence_st (snd (handleIndexSave numtext fs' folder ?st1))
             = (if labelingMode st \<noteq> Single
                then (case newSubSeq of Some n \<Rightarrow> n | None \<Rightarrow> 1) else subSequence_st st)
         \<and> isEditingIndex (snd (handleIndexSave numtext fs' folder ?st1)) = False
         \<and> indexWarning (snd (handleIndexSave numtext fs' folder ?st1)) = None
         \<and> indexWarning (changeEditSequence t ?st1) = None
         \<and> indexWarning (changeEditSubSequence t ?st1) = None
         \<and> indexWarning (openIndexEditor ?st1) = None"
    unfolding second
    by (simp add: Let_def changeEditSequence_def changeEditSubSequence_def openIndexEditor_def)
  show ?thesis
    unfolding first snd_conv using rest only by simp
qed

theorem handleIndexSave_two_step_witness:
  "sequence_st (snd (handleIndexSave id
       \<lparr>nodes = [''/s/005.jpg'' \<mapsto> File ''old''], locked = {}\<rparr> \<lparr>name = ''s'', path = ''/s''\<rparr>
       (changeEditSequence ''5'' (openIndexEditor initial_state)))) = 1
   \<and> indexWarning (snd (handleIndexSave id
       \<lparr>nodes = [''/s/005.jpg'' \<mapsto> File ''old''], locked = {}\<rparr> \<lparr>name = ''s'', path = ''/s''\<rparr>
       (changeEditSequence ''5'' (openIndexEditor initial_state))))
     = Some (overwriteWarning ''005.jpg'')
   \<and> isEditingIndex (snd (handleIndexSave id
       \<lparr>nodes = [''/s/005.jpg'' \<mapsto> File ''old''], locked = {}\<rparr> \<lparr>name = ''s'', path = ''/s''\<rparr>
       (changeEditSequence ''5'' (openIndexEditor initial_state)))) = True
   \<and> sequence_st (snd (handleIndexSave id
       \<lparr>nodes = [''/s/005.jpg'' \<mapsto> File ''old''], locked = {}\<rparr> \<lparr>name = ''s'', path = ''/s''\<rparr>
       (snd (handleIndexSave id
          \<lparr>nodes = [''/s/005.jpg'' \<mapsto> File ''old''], locked = {}\<rparr> \<lparr>name = ''s'', path = ''/s''\<rparr>
          (changeEditSequence ''5'' (openIndexEditor initial_state)))))) = 5
   \<and> isEditingIndex (snd (handleIndexSave id
       \<lparr>nodes = [''/s/005.jpg'' \<mapsto> File ''old''], locked = {}\<rparr> \<lparr>name = ''s'', path = ''/s''\<rparr>
       (snd (handleIndexSave id
          \<lparr>nodes = [''/s/005.jpg'' \<mapsto> File ''old''], locked = {}\<rparr> \<lparr>name = ''s'', path = ''/s''\<rparr>
          (changeEditSequence ''5'' (openIndexEditor initial_state)))))) = False"
proof -
  let ?fs = "\<lparr>nodes = [''/s/005.jpg'' \<mapsto> File ''old''], locked = {}\<rparr>"
  let ?folder = "\<lparr>name = ''s'', path = ''/s''\<rparr>"
  let ?st = "changeEditSequence ''5'' (openIndexEditor initial_state)"
  have st: "?st = initial_state\<lparr>editSequence := ''5'', isEditingIndex := True\<rparr>"
    by (simp add: changeEditSequence_def openIndexEditor_def initial_state_def is_digit_def)
  have read: "readIndexEdit ?st = Inr (5, [], None)"
    unfolding st
    by (simp add: readIndexEdit_def Let_def initial_state_def parseInt_def is_space_def
        is_digit_def digits_val_def digit_val_def)
  have fname: "editedFilename id ?st (5, [], None) = ''005.jpg''"
    unfolding st
    by (simp add: editedFilename_def initial_state_def formatFilename_def toString.simps
        digit_char_def padStart_def numeral_3_eq_3)
  have taken: "fileExists ?fs (path ?folder) (editedFilename id ?st (5, [], None))"
    unfolding fname by (simp add: fileExists_def RNFS_exists_def)
  have nowarn: "indexWarning ?st = None" and single: "labelingMode ?st = Single"
    and seq: "sequence_st ?st = 1" and editing: "isEditingIndex ?st = True"
    unfolding st by (simp_all add: initial_state_def)
  note r = handleIndexSave_two_step [OF read taken nowarn, of ?fs "[]", unfolded fname]
  have first: "handleIndexSave id ?fs ?folder ?st =
                 (None, ?st\<lparr>indexWarning := Some (overwriteWarning ''005.jpg'')\<rparr>)"
    using r by (rule conjunct1)
  have second: "sequence_st (snd (handleIndexSave id ?fs ?folder
                   (snd (handleIndexSave id ?fs ?folder ?st))))
                = (if labelingMode ?st = TextGroup then sequence_st ?st else 5)"
    and closed: "isEditingIndex (snd (handleIndexSave id ?fs ?folder
                   (snd (handleIndexSave id ?fs ?folder ?st)))) = False"
    using r by blast+
  have a: "sequence_st (snd (handleIndexSave id ?fs ?folder ?st)) = 1"
    and b: "indexWarning (snd (handleIndexSave id ?fs ?folder ?st))
            = Some (overwriteWarning ''005.jpg'')"
    and c: "isEditingIndex (snd (handleIndexSave id ?fs ?folder ?st)) = True"
    unfolding first using seq editing by simp_all
  have d: "sequence_st (snd (handleIndexSave id ?fs ?folder
                   (snd (handleIndexSave id ?fs ?folder ?st)))) = 5"
    using second single by simp
  show ?thesis using a b c d closed by blast
qed


end
